theory Spec2Isabelle
  imports Main "HOL-Library.Word" "HOL-Library.Sublist"
begin

section \<open>diagexec: the interpreter walk of \<^verbatim>\<open>stage1/rootfs/diagexec/diagexec.c\<close>\<close>

text \<open>
  \<^verbatim>\<open>diagexec\<close> changes root, tries to execute a program and, when the execution cannot
  start, walks the chain of interpreters the program names (a \<^verbatim>\<open>#!\<close> line or the
  \<^verbatim>\<open>PT_INTERP\<close> entry of an ELF file), printing the first defect it meets.

  The embedding follows the C text statement by statement.
  \<^item> A file is what \<^verbatim>\<open>open\<close>, \<^verbatim>\<open>fstat\<close> and \<^verbatim>\<open>mmap\<close> show of it: whether it is regular,
    whether an execute bit is set, and its bytes (\<^verbatim>\<open>st_size\<close> is their number).
  \<^item> \<^verbatim>\<open>exit(exit_err)\<close> ends the process: every function returns either a stop
    (the exit with its diagnostic, the \<^verbatim>\<open>return\<close> of \<^verbatim>\<open>diag\<close>, or a fault) or a value,
    together with the state.
  \<^item> The C code checks no offset against the size of the mapping. A read outside
    the bytes of the file is the stop \<open>Fault\<close>: what the process does there depends
    on the memory around the mapping and is not described here.
  \<^item> \<^verbatim>\<open>strndup\<close> is taken never to fail for lack of memory, and \<^verbatim>\<open>mmap\<close> to map the
    bytes of a non-empty regular file; \<^verbatim>\<open>mmap\<close> returns \<^verbatim>\<open>MAP_FAILED\<close>, never \<^verbatim>\<open>NULL\<close>,
    when it fails, so the test after it never fires.
\<close>

subsection \<open>Bytes, files, constants\<close>

type_synonym byte = "8 word"
type_synonym bytes = "byte list"

text \<open>A path is a C string: the bytes before its terminating NUL.\<close>

type_synonym path = "byte list"

definition ch :: "char \<Rightarrow> byte" where
  "ch c = of_char c"

definition bytes_of :: "string \<Rightarrow> bytes" where
  "bytes_of s = map ch s"

record exefile =
  fstat_ok :: bool
  is_reg :: bool
  is_exec :: bool
  mm :: bytes

text \<open>\<^verbatim>\<open>open(exe, O_RDONLY)\<close> on the file system as the process sees it after
  \<^verbatim>\<open>chroot\<close> and \<^verbatim>\<open>chdir\<close>: \<open>None\<close> when the call fails.\<close>

type_synonym fs = "path \<Rightarrow> exefile option"

text \<open>
  The macros of \<^verbatim>\<open>elf.h\<close> and of \<^verbatim>\<open>limits.h\<close> that \<^verbatim>\<open>diagexec.c\<close> uses. \<^verbatim>\<open>elf.h\<close> is not
  among the sources at hand, so the values are parameters of every function below;
  the fields carry the names of the macros.
\<close>

record macros =
  PATH_MAX :: nat
  ELF_BITS :: nat
  ELF_BITS_32 :: nat
  ELF_BITS_64 :: nat
  ELF_ENDIAN :: nat
  ELF_ENDIAN_LITL :: nat
  ELF_ENDIAN_BIG :: nat
  ELF_VERSION :: nat
  ELF32_PHT_OFF :: nat
  ELF32_PHTE_SIZE :: nat
  ELF32_PHTE_CNT :: nat
  ELF32_PHE_OFF :: nat
  ELF32_PHE_SIZE :: nat
  ELF64_PHT_OFF :: nat
  ELF64_PHTE_SIZE :: nat
  ELF64_PHTE_CNT :: nat
  ELF64_PHE_OFF :: nat
  ELF64_PHE_SIZE :: nat
  ELF_PT_INTERP :: nat

text \<open>The values of the ELF format (System V ABI) and of Linux (\<^verbatim>\<open>PATH_MAX\<close>), used for
  the concrete files below.\<close>

definition elf_abi :: macros where
  "elf_abi = \<lparr> PATH_MAX = 4096,
     ELF_BITS = 4, ELF_BITS_32 = 1, ELF_BITS_64 = 2,
     ELF_ENDIAN = 5, ELF_ENDIAN_LITL = 1, ELF_ENDIAN_BIG = 2,
     ELF_VERSION = 6,
     ELF32_PHT_OFF = 28, ELF32_PHTE_SIZE = 42, ELF32_PHTE_CNT = 44,
     ELF32_PHE_OFF = 4, ELF32_PHE_SIZE = 16,
     ELF64_PHT_OFF = 32, ELF64_PHTE_SIZE = 54, ELF64_PHTE_CNT = 56,
     ELF64_PHE_OFF = 8, ELF64_PHE_SIZE = 32,
     ELF_PT_INTERP = 3 \<rparr>"

definition MAX_DIAG_DEPTH :: nat where
  "MAX_DIAG_DEPTH = 10"

subsection \<open>Reading the mapping\<close>

definition byte_at :: "bytes \<Rightarrow> nat \<Rightarrow> byte option" where
  "byte_at m i = (if i < length m then Some (m ! i) else None)"

definition rd :: "bytes \<Rightarrow> nat \<Rightarrow> nat \<Rightarrow> bytes option" where
  "rd m a n = (if a + n \<le> length m then Some (take n (drop a m)) else None)"

fun le_nat :: "bytes \<Rightarrow> nat" where
  "le_nat [] = 0"
| "le_nat (b # bs) = unat b + 256 * le_nat bs"

definition be_nat :: "bytes \<Rightarrow> nat" where
  "be_nat bs = le_nat (rev bs)"

text \<open>
  Modelled from the spec: the accessor functions of \<^verbatim>\<open>elf.h\<close> (\<^verbatim>\<open>le_sget\<close>, \<^verbatim>\<open>le_iget\<close>,
  \<^verbatim>\<open>le32_lget\<close>, \<^verbatim>\<open>le64_lget\<close> and their big-endian twins), which are not among the
  sources at hand. After section 4.1 of the specification: a 16-bit accessor, a
  32-bit accessor and a "long" accessor of the width of the class (32 or 64 bits),
  each decoding an unsigned integer in the given byte order at an address of the
  buffer, with no range check. Here the address is an offset into the mapping and a
  read that leaves the bytes of the file is \<open>None\<close>.
\<close>

type_synonym getter = "bytes \<Rightarrow> nat \<Rightarrow> nat option"

definition le_sget :: getter where
  "le_sget m a = map_option le_nat (rd m a 2)"

definition be_sget :: getter where
  "be_sget m a = map_option be_nat (rd m a 2)"

definition le_iget :: getter where
  "le_iget m a = map_option le_nat (rd m a 4)"

definition be_iget :: getter where
  "be_iget m a = map_option be_nat (rd m a 4)"

definition le32_lget :: getter where
  "le32_lget m a = map_option le_nat (rd m a 4)"

definition be32_lget :: getter where
  "be32_lget m a = map_option be_nat (rd m a 4)"

definition le64_lget :: getter where
  "le64_lget m a = map_option le_nat (rd m a 8)"

definition be64_lget :: getter where
  "be64_lget m a = map_option be_nat (rd m a 8)"

text \<open>\<^verbatim>\<open>memchr(&m[off], c, n)\<close>: the index in \<open>m\<close> of the first \<open>c\<close> among the \<open>n\<close> bytes
  from \<open>off\<close>, \<open>None\<close> for \<^verbatim>\<open>NULL\<close>. The caller keeps \<open>off + n\<close> within the file.\<close>

definition memchr :: "bytes \<Rightarrow> nat \<Rightarrow> byte \<Rightarrow> nat \<Rightarrow> nat option" where
  "memchr m off c n =
     (let w = take n (drop off m)
      in if c \<in> set w then Some (off + length (takeWhile (\<lambda>b. b \<noteq> c) w)) else None)"

text \<open>\<^verbatim>\<open>strndup(&m[off], n)\<close>: the bytes from \<open>off\<close> up to the first NUL, \<open>n\<close> at most.
  \<open>None\<close> when the scan leaves the file before it has met a NUL or counted \<open>n\<close> bytes.\<close>

definition strndup :: "bytes \<Rightarrow> nat \<Rightarrow> nat \<Rightarrow> bytes option" where
  "strndup m off n =
     (let s = takeWhile (\<lambda>b. b \<noteq> 0) (take n (drop off m))
      in if length s < n \<and> length m \<le> off + length s then None else Some s)"

subsection \<open>State, diagnostics and \<^verbatim>\<open>exit_if\<close>\<close>

datatype err =
    Usage
  | ChrootFailed
  | ChdirFailed
  | ExecFailed
  | UnableToOpen
  | CannotStat
  | NotRegularFile
  | NotExecutable
  | MmapFailed
  | ShebangTooLong
  | DupFailed
  | UnsupportedElfVersion
  | UnsupportedElfFormat
  | UnsupportedFileType
  | NoInterpreter
  | PathNotAbsolute
  | ExcessiveRecursion

text \<open>
  \<open>exit_err\<close> is the static counter of the C file. \<open>trace\<close> is not in the C code: it
  records, in order, every use of \<^verbatim>\<open>exit_if\<close> that was executed (with the diagnostic it
  guards) and every entry into \<^verbatim>\<open>diag\<close> (with the path and the value of \<^verbatim>\<open>diag_depth\<close>
  at that moment), so that theorems can speak about what was executed.
\<close>

datatype event = Check err | Enter path nat

record state =
  exit_err :: nat
  trace :: "event list"

datatype stop = Exit err nat | Return | Fault

datatype 'a step = Stop stop state | Cont 'a state

definition bind :: "'a step \<Rightarrow> ('a \<Rightarrow> state \<Rightarrow> 'b step) \<Rightarrow> 'b step" where
  "bind x f = (case x of Stop r s \<Rightarrow> Stop r s | Cont a s \<Rightarrow> f a s)"

text \<open>The first statement of the macro: \<^verbatim>\<open>exit_err++\<close>.\<close>

definition tick :: "err \<Rightarrow> state \<Rightarrow> state" where
  "tick e s = s\<lparr> exit_err := exit_err s + 1, trace := trace s @ [Check e] \<rparr>"

text \<open>\<^verbatim>\<open>exit_if(_cond, ...)\<close>: count, then print and \<^verbatim>\<open>exit(exit_err)\<close> when the condition
  holds. \<^verbatim>\<open>pexit_if\<close> is the same with the text of \<^verbatim>\<open>errno\<close> appended.\<close>

definition exit_if :: "bool \<Rightarrow> err \<Rightarrow> state \<Rightarrow> unit step" where
  "exit_if cond e s =
     (let s' = tick e s in if cond then Stop (Exit e (exit_err s')) s' else Cont () s')"

text \<open>\<^verbatim>\<open>exit_if(!(p = f(...)), ...)\<close>: the same test on a pointer just obtained.\<close>

definition exit_if_null :: "'a option \<Rightarrow> err \<Rightarrow> state \<Rightarrow> 'a step" where
  "exit_if_null p e s =
     (let s' = tick e s
      in case p of None \<Rightarrow> Stop (Exit e (exit_err s')) s' | Some x \<Rightarrow> Cont x s')"

text \<open>The status a parent reads from \<^verbatim>\<open>exit(n)\<close>: the low eight bits.\<close>

definition wait_status :: "nat \<Rightarrow> nat" where
  "wait_status n = n mod 256"

subsection \<open>\<^verbatim>\<open>diag\<close>: opening the file (lines 39 to 47)\<close>

definition diag_open :: "fs \<Rightarrow> path \<Rightarrow> state \<Rightarrow> exefile step" where
  "diag_open files exe s =
     bind (exit_if_null (files exe) UnableToOpen s) (\<lambda>f s.
     bind (exit_if (\<not> fstat_ok f) CannotStat s) (\<lambda>_ s.
     bind (exit_if (\<not> is_reg f) NotRegularFile s) (\<lambda>_ s.
     bind (exit_if (\<not> is_exec f) NotExecutable s) (\<lambda>_ s.
     bind (exit_if False MmapFailed s) (\<lambda>_ s.
     Cont f s)))))"

subsection \<open>The \<^verbatim>\<open>#!\<close> branch (lines 49 to 57)\<close>

definition shebang :: bytes where
  "shebang = [ch CHR ''#'', ch CHR ''!'']"

definition shebang_itrp :: "macros \<Rightarrow> bytes \<Rightarrow> state \<Rightarrow> path option step" where
  "shebang_itrp c m s =
     (let maxlen = min (PATH_MAX c) (length m - length shebang)
      in bind (exit_if_null (memchr m (length shebang) (ch CHR 0x0A) maxlen) ShebangTooLong s)
           (\<lambda>nl s.
         case strndup m (length shebang) (nl - 2) of
           None \<Rightarrow> Stop Fault (tick DupFailed s)
         | Some p \<Rightarrow>
             bind (exit_if_null (Some p) DupFailed s) (\<lambda>itrp s.
             Cont (Some itrp) s)))"

subsection \<open>The ELF branch (lines 58 to 114)\<close>

definition elf :: bytes where
  "elf = [0x7f, ch CHR ''E'', ch CHR ''L'', ch CHR ''F'']"

text \<open>The local variables of the branch. A function pointer or a pointer that is
  \<^verbatim>\<open>NULL\<close> is \<open>None\<close>; a pointer into the mapping is its offset.\<close>

record elf_vars =
  lget :: "getter option"
  iget :: "getter option"
  sget :: "getter option"
  phoff :: "nat option"
  phesz :: "nat option"
  phecnt :: "nat option"
  phreloff :: nat
  phrelsz :: nat

definition elf_vars_init :: elf_vars where
  "elf_vars_init = \<lparr> lget = None, iget = None, sget = None,
     phoff = None, phesz = None, phecnt = None, phreloff = 0, phrelsz = 0 \<rparr>"

text \<open>Lines 71 to 101: "determine which accessors to use and where". \<open>None\<close> when
  \<^verbatim>\<open>mm[ELF_BITS]\<close> or \<^verbatim>\<open>mm[ELF_ENDIAN]\<close> lies outside the file.\<close>

definition elf_select :: "macros \<Rightarrow> bytes \<Rightarrow> elf_vars option" where
  "elf_select c m =
     (case byte_at m (ELF_BITS c) of
        None \<Rightarrow> None
      | Some bits \<Rightarrow>
          if unat bits = ELF_BITS_32 c then
            (case byte_at m (ELF_ENDIAN c) of
               None \<Rightarrow> None
             | Some en \<Rightarrow>
                 Some ((if unat en = ELF_ENDIAN_LITL c then
                          elf_vars_init\<lparr> lget := Some le32_lget, sget := Some le_sget,
                            iget := Some le_iget \<rparr>
                        else if unat en = ELF_ENDIAN_BIG c then
                          elf_vars_init\<lparr> lget := Some be32_lget, sget := Some be_sget,
                            iget := Some be_iget \<rparr>
                        else elf_vars_init)
                       \<lparr> phoff := Some (ELF32_PHT_OFF c), phesz := Some (ELF32_PHTE_SIZE c),
                         phecnt := Some (ELF32_PHTE_CNT c), phreloff := ELF32_PHE_OFF c,
                         phrelsz := ELF32_PHE_SIZE c \<rparr>))
          else if unat bits = ELF_BITS_64 c then
            (case byte_at m (ELF_ENDIAN c) of
               None \<Rightarrow> None
             | Some en \<Rightarrow>
                 Some ((if unat en = ELF_ENDIAN_LITL c then
                          elf_vars_init\<lparr> lget := Some le64_lget, sget := Some le_sget,
                            iget := Some le_iget \<rparr>
                        else if unat en = ELF_ENDIAN_BIG c then
                          elf_vars_init\<lparr> lget := Some be64_lget, sget := Some be_sget,
                            iget := Some be_iget \<rparr>
                        else elf_vars_init)
                       \<lparr> phoff := Some (ELF64_PHT_OFF c), phesz := Some (ELF64_PHTE_SIZE c),
                         phecnt := Some (ELF64_PHTE_CNT c), phreloff := ELF64_PHE_OFF c,
                         phrelsz := ELF64_PHE_SIZE c \<rparr>))
          else Some elf_vars_init)"

text \<open>A call through a function pointer, at an address, or at a pointer variable.\<close>

definition get :: "getter option \<Rightarrow> bytes \<Rightarrow> nat \<Rightarrow> nat option" where
  "get g m a = (case g of None \<Rightarrow> None | Some f \<Rightarrow> f m a)"

definition getp :: "getter option \<Rightarrow> bytes \<Rightarrow> nat option \<Rightarrow> nat option" where
  "getp g m p = (case p of None \<Rightarrow> None | Some a \<Rightarrow> get g m a)"

text \<open>Line 111: the string of the entry at \<open>ph\<close>, \<open>None\<close> for a read outside the file.\<close>

definition ph_itrp :: "elf_vars \<Rightarrow> bytes \<Rightarrow> nat \<Rightarrow> path option" where
  "ph_itrp v m ph =
     (case get (lget v) m (ph + phreloff v) of
        None \<Rightarrow> None
      | Some off \<Rightarrow>
          (case get (lget v) m (ph + phrelsz v) of
             None \<Rightarrow> None
           | Some sz \<Rightarrow> strndup m off sz))"

text \<open>
  The loop of lines 109 to 114, entered with \<open>ph\<close> the offset of the entry and \<open>i\<close> its
  index. The result is \<open>None\<close> for a read outside the file, \<open>Some None\<close> when the loop
  ends with \<^verbatim>\<open>itrp\<close> still \<^verbatim>\<open>NULL\<close>, \<open>Some (Some p)\<close> after the \<^verbatim>\<open>break\<close>.
\<close>

function ph_scan :: "macros \<Rightarrow> elf_vars \<Rightarrow> bytes \<Rightarrow> nat \<Rightarrow> nat \<Rightarrow> path option option" where
  "ph_scan c v m ph i =
     (case getp (sget v) m (phecnt v) of
        None \<Rightarrow> None
      | Some cnt \<Rightarrow>
          if i < cnt then
            (case get (iget v) m ph of
               None \<Rightarrow> None
             | Some t \<Rightarrow>
                 if t = ELF_PT_INTERP c then
                   (case ph_itrp v m ph of
                      None \<Rightarrow> None
                    | Some p \<Rightarrow> Some (Some p))
                 else
                   (case getp (sget v) m (phesz v) of
                      None \<Rightarrow> None
                    | Some e \<Rightarrow> ph_scan c v m (ph + e) (i + 1)))
          else Some None)"
  by pat_completeness auto
termination
  by (relation "measure (\<lambda>(c, v, m, ph, i).
        (case getp (sget v) m (phecnt v) of None \<Rightarrow> 0 | Some cnt \<Rightarrow> cnt - i))") auto

text \<open>Lines 105 to 114, after the accessors have been chosen.\<close>

definition elf_phdrs :: "macros \<Rightarrow> elf_vars \<Rightarrow> bytes \<Rightarrow> state \<Rightarrow> path option step" where
  "elf_phdrs c v m s =
     (case phoff v of
        None \<Rightarrow> Stop Return s
      | Some po \<Rightarrow>
          (case get (lget v) m po of
             None \<Rightarrow> Stop Fault s
           | Some ph0 \<Rightarrow>
               (case ph_scan c v m ph0 0 of
                  None \<Rightarrow> Stop Fault s
                | Some itrp \<Rightarrow> Cont itrp s)))"

text \<open>Lines 67 to 114.\<close>

definition elf_itrp :: "macros \<Rightarrow> bytes \<Rightarrow> state \<Rightarrow> path option step" where
  "elf_itrp c m s =
     (case byte_at m (ELF_VERSION c) of
        None \<Rightarrow> Stop Fault (tick UnsupportedElfVersion s)
      | Some ver \<Rightarrow>
          bind (exit_if (ver \<noteq> 1) UnsupportedElfVersion s) (\<lambda>_ s.
          case elf_select c m of
            None \<Rightarrow> Stop Fault s
          | Some v \<Rightarrow>
              bind (exit_if (lget v = None) UnsupportedElfFormat s) (\<lambda>_ s.
              elf_phdrs c v m s)))"

subsection \<open>\<^verbatim>\<open>diag\<close>\<close>

text \<open>Lines 49 to 117: the three branches on the first bytes of the file.\<close>

definition find_itrp :: "macros \<Rightarrow> bytes \<Rightarrow> state \<Rightarrow> path option step" where
  "find_itrp c m s =
     (if length shebang \<le> length m \<and> take (length shebang) m = shebang then
        shebang_itrp c m s
      else if length elf \<le> length m \<and> take (length elf) m = elf then
        elf_itrp c m s
      else bind (exit_if True UnsupportedFileType s) (\<lambda>_ s. Cont None s))"

text \<open>Lines 119 and 120.\<close>

definition check_itrp :: "path option \<Rightarrow> state \<Rightarrow> path step" where
  "check_itrp itrp s =
     bind (exit_if_null itrp NoInterpreter s) (\<lambda>p s.
     bind (exit_if (case p of [] \<Rightarrow> True | b # _ \<Rightarrow> b \<noteq> ch CHR ''/'') PathNotAbsolute s)
       (\<lambda>_ s.
     Cont p s))"

text \<open>Everything of one call of \<^verbatim>\<open>diag\<close> before the test of the depth.\<close>

definition diag_file :: "macros \<Rightarrow> fs \<Rightarrow> path \<Rightarrow> state \<Rightarrow> path step" where
  "diag_file c files exe s =
     bind (diag_open files exe s) (\<lambda>f s.
     bind (find_itrp c (mm f) s) (\<lambda>itrp s.
     check_itrp itrp s))"

text \<open>
  \<^verbatim>\<open>diag\<close> itself. \<open>d\<close> is the static \<^verbatim>\<open>diag_depth\<close>, which only \<^verbatim>\<open>diag\<close> can see; it is
  returned with the stop and the state. Lines 121 to 123: \<^verbatim>\<open>++diag_depth\<close> is part of
  the condition, evaluated after \<^verbatim>\<open>exit_err++\<close>.
\<close>

function diag :: "macros \<Rightarrow> fs \<Rightarrow> path \<Rightarrow> nat \<Rightarrow> state \<Rightarrow> stop \<times> nat \<times> state" where
  "diag c files exe d s =
     (case diag_file c files exe (s\<lparr> trace := trace s @ [Enter exe d] \<rparr>) of
        Stop r s' \<Rightarrow> (r, d, s')
      | Cont itrp s' \<Rightarrow>
          (case exit_if (MAX_DIAG_DEPTH < d + 1) ExcessiveRecursion s' of
             Stop r s'' \<Rightarrow> (r, d + 1, s'')
           | Cont _ s'' \<Rightarrow> diag c files itrp (d + 1) s''))"
  by pat_completeness auto
termination
  by (relation "measure (\<lambda>(c, files, exe, d, s). Suc MAX_DIAG_DEPTH - d)")
     (auto simp: exit_if_def Let_def split: if_splits)

subsection \<open>\<^verbatim>\<open>main\<close>\<close>

text \<open>What \<^verbatim>\<open>execv\<close> does: it replaces the process, or fails with an \<^verbatim>\<open>errno\<close>.\<close>

datatype execv_result = Replaced | ENOENT | EACCES | OtherErrno

record sys =
  chroot_ok :: bool
  chdir_ok :: bool
  execv_res :: execv_result
  root_fs :: fs

datatype ending = Exits nat "err option" | Execs | Faults

definition EXIT_FAILURE :: nat where
  "EXIT_FAILURE = 1"

definition state_init :: state where
  "state_init = \<lparr> exit_err = 0, trace = [] \<rparr>"

definition main_pre :: "sys \<Rightarrow> path list \<Rightarrow> state \<Rightarrow> unit step" where
  "main_pre w argv s =
     bind (exit_if (length argv < 3) Usage s) (\<lambda>_ s.
     bind (exit_if (\<not> chroot_ok w) ChrootFailed s) (\<lambda>_ s.
     bind (exit_if (\<not> chdir_ok w) ChdirFailed s) (\<lambda>_ s.
     Cont () s)))"

text \<open>The run of the program: the ending, the final \<^verbatim>\<open>diag_depth\<close> and the final state.\<close>

definition main :: "macros \<Rightarrow> sys \<Rightarrow> path list \<Rightarrow> ending \<times> nat \<times> state" where
  "main c w argv =
     (case main_pre w argv state_init of
        Stop r s \<Rightarrow> ((case r of Exit e n \<Rightarrow> Exits n (Some e) | _ \<Rightarrow> Faults), 0, s)
      | Cont _ s \<Rightarrow>
          if execv_res w = Replaced then (Execs, 0, tick ExecFailed s)
          else
            (case exit_if (execv_res w \<noteq> ENOENT \<and> execv_res w \<noteq> EACCES) ExecFailed s of
               Stop r s \<Rightarrow> ((case r of Exit e n \<Rightarrow> Exits n (Some e) | _ \<Rightarrow> Faults), 0, s)
             | Cont _ s \<Rightarrow>
                 (case diag c (root_fs w) (argv ! 2) 0 s of
                    (Exit e n, d, s) \<Rightarrow> (Exits n (Some e), d, s)
                  | (Return, d, s) \<Rightarrow> (Exits EXIT_FAILURE None, d, s)
                  | (Fault, d, s) \<Rightarrow> (Faults, d, s))))"

section \<open>The specification's notions\<close>

text \<open>
  The definitions of this section do not come from the C file. They say, in the words
  of the specification, what the theorems below compare the code with, or they
  observe the trace.
\<close>

subsection \<open>File Classifier (specification, section 4.2)\<close>

datatype kind = Shebang | Elf | Unsupported

text \<open>"Compare the first bytes against the literal signature \<^verbatim>\<open>#!\<close> (length 2) and
  against the literal signature \<^verbatim>\<open>0x7F 'E' 'L' 'F'\<close> (length 4), in that order of
  precedence." The signatures are written out here as their bytes in ASCII, \<^verbatim>\<open>#\<close> = 0x23,
  \<^verbatim>\<open>!\<close> = 0x21, \<^verbatim>\<open>E\<close> = 0x45, \<^verbatim>\<open>L\<close> = 0x4C, \<^verbatim>\<open>F\<close> = 0x46, and not through the arrays of the C
  file.\<close>

definition classify :: "bytes \<Rightarrow> kind" where
  "classify m =
     (if prefix [0x23, 0x21] m then Shebang
      else if prefix [0x7F, 0x45, 0x4C, 0x46] m then Elf
      else Unsupported)"

subsection \<open>Shebang Parser (specification, section 4.3)\<close>

text \<open>The text between the signature and the first newline after it (all the rest
  of the file when there is no newline).\<close>

definition shebang_line :: "bytes \<Rightarrow> bytes" where
  "shebang_line m = takeWhile (\<lambda>b. b \<noteq> ch CHR 0x0A) (drop (length shebang) m)"

text \<open>"Exclusive of a trailing carriage return if present."\<close>

definition strip_cr :: "bytes \<Rightarrow> bytes" where
  "strip_cr p = (if p \<noteq> [] \<and> last p = ch CHR 0x0D then butlast p else p)"

subsection \<open>ELF class and byte order (specification, section 4.4, steps 1 and 2)\<close>

datatype elf_class = Class32 | Class64

datatype elf_order = Little | Big

text \<open>The four recognised combinations of the class byte \<open>b\<close> and the byte-order
  byte \<open>e\<close>; \<open>None\<close> for every other pair.\<close>

definition elf_format :: "macros \<Rightarrow> byte \<Rightarrow> byte \<Rightarrow> (elf_class \<times> elf_order) option" where
  "elf_format c b e =
     (if (unat b = ELF_BITS_32 c \<or> unat b = ELF_BITS_64 c) \<and>
         (unat e = ELF_ENDIAN_LITL c \<or> unat e = ELF_ENDIAN_BIG c)
      then Some (if unat b = ELF_BITS_32 c then Class32 else Class64,
                 if unat e = ELF_ENDIAN_LITL c then Little else Big)
      else None)"

text \<open>The Binary Accessor Set that matches a class and a byte order, with the
  offsets of the fields of that class.\<close>

fun accessors :: "macros \<Rightarrow> elf_class \<Rightarrow> elf_order \<Rightarrow> elf_vars" where
  "accessors c Class32 Little =
     \<lparr> lget = Some le32_lget, iget = Some le_iget, sget = Some le_sget,
       phoff = Some (ELF32_PHT_OFF c), phesz = Some (ELF32_PHTE_SIZE c),
       phecnt = Some (ELF32_PHTE_CNT c), phreloff = ELF32_PHE_OFF c,
       phrelsz = ELF32_PHE_SIZE c \<rparr>"
| "accessors c Class32 Big =
     \<lparr> lget = Some be32_lget, iget = Some be_iget, sget = Some be_sget,
       phoff = Some (ELF32_PHT_OFF c), phesz = Some (ELF32_PHTE_SIZE c),
       phecnt = Some (ELF32_PHTE_CNT c), phreloff = ELF32_PHE_OFF c,
       phrelsz = ELF32_PHE_SIZE c \<rparr>"
| "accessors c Class64 Little =
     \<lparr> lget = Some le64_lget, iget = Some le_iget, sget = Some le_sget,
       phoff = Some (ELF64_PHT_OFF c), phesz = Some (ELF64_PHTE_SIZE c),
       phecnt = Some (ELF64_PHTE_CNT c), phreloff = ELF64_PHE_OFF c,
       phrelsz = ELF64_PHE_SIZE c \<rparr>"
| "accessors c Class64 Big =
     \<lparr> lget = Some be64_lget, iget = Some be_iget, sget = Some be_sget,
       phoff = Some (ELF64_PHT_OFF c), phesz = Some (ELF64_PHTE_SIZE c),
       phecnt = Some (ELF64_PHTE_CNT c), phreloff = ELF64_PHE_OFF c,
       phrelsz = ELF64_PHE_SIZE c \<rparr>"

subsection \<open>Observing the trace\<close>

fun checks :: "event list \<Rightarrow> err list" where
  "checks [] = []"
| "checks (Check e # t) = e # checks t"
| "checks (Enter p d # t) = checks t"

fun enter_depths :: "event list \<Rightarrow> nat list" where
  "enter_depths [] = []"
| "enter_depths (Check e # t) = enter_depths t"
| "enter_depths (Enter p d # t) = d # enter_depths t"

text \<open>From \<open>s\<close> to \<open>s'\<close>, at most \<open>k\<close> check points were executed and nothing else
  happened: each one counted once in \<open>exit_err\<close>.\<close>

definition advn :: "nat \<Rightarrow> state \<Rightarrow> state \<Rightarrow> bool" where
  "advn k s s' \<longleftrightarrow>
     (\<exists>es. length es \<le> k \<and> trace s' = trace s @ map Check es \<and>
           exit_err s' = exit_err s + length es)"

text \<open>The same for the result of a step; an exit carries the counter, and the last
  check point executed is the one that failed.\<close>

definition ok_step :: "nat \<Rightarrow> state \<Rightarrow> 'a step \<Rightarrow> bool" where
  "ok_step k s r \<longleftrightarrow>
     (case r of
        Cont x s' \<Rightarrow> advn k s s'
      | Stop st s' \<Rightarrow>
          advn k s s' \<and>
          (case st of
             Exit e n \<Rightarrow>
               n = exit_err s' \<and> exit_err s < n \<and> trace s' \<noteq> [] \<and> last (trace s') = Check e
           | _ \<Rightarrow> True))"

subsection \<open>Concrete files\<close>

definition regular_exe :: "bytes \<Rightarrow> exefile" where
  "regular_exe m = \<lparr> fstat_ok = True, is_reg = True, is_exec = True, mm = m \<rparr>"

definition sh_script :: bytes where
  "sh_script = bytes_of ''#!/bin/sh'' @ [ch CHR 0x0A] @ bytes_of ''echo hi'' @ [ch CHR 0x0A]"

definition crlf_script :: bytes where
  "crlf_script = bytes_of ''#!/bin/sh'' @ [ch CHR 0x0D, ch CHR 0x0A]"

text \<open>A \<^verbatim>\<open>#!\<close> line with a NUL byte in it, and a carriage return before the newline.\<close>

definition nul_script :: bytes where
  "nul_script =
     bytes_of ''#!/bin'' @ [0] @ bytes_of ''/sh'' @ [ch CHR 0x0D, ch CHR 0x0A]"

text \<open>
  The ELF files below are 32-bit little-endian files in the layout of \<open>elf_abi\<close>: a
  header of 52 bytes (\<^verbatim>\<open>e_phoff\<close> at 28, \<^verbatim>\<open>e_phentsize = 32\<close> at 42, \<^verbatim>\<open>e_phnum\<close> at 44),
  then the program headers of 32 bytes each (\<^verbatim>\<open>p_type\<close> at 0, \<^verbatim>\<open>p_offset\<close> at 4,
  \<^verbatim>\<open>p_filesz\<close> at 16), then the strings.
\<close>

text \<open>A static binary: \<^verbatim>\<open>e_phoff = 0\<close> and \<^verbatim>\<open>e_phnum = 0\<close>, no program header.\<close>

definition static_elf :: bytes where
  "static_elf =
     [127, 69, 76, 70, 1, 1, 1, 0, 0, 0, 0, 0, 0, 0, 0, 0,
      2, 0, 3, 0, 1, 0, 0, 0, 0, 0, 0, 0, 0, 0, 0, 0,
      0, 0, 0, 0, 0, 0, 0, 0, 52, 0, 32, 0, 0, 0, 0, 0,
      0, 0, 0, 0]"

text \<open>The same header with the version byte 0.\<close>

definition bad_version_elf :: bytes where
  "bad_version_elf =
     [127, 69, 76, 70, 1, 1, 0, 0, 0, 0, 0, 0, 0, 0, 0, 0,
      2, 0, 3, 0, 1, 0, 0, 0, 0, 0, 0, 0, 0, 0, 0, 0,
      0, 0, 0, 0, 0, 0, 0, 0, 52, 0, 32, 0, 0, 0, 0, 0,
      0, 0, 0, 0]"

text \<open>The same header with the byte-order byte 3.\<close>

definition bad_order_elf :: bytes where
  "bad_order_elf =
     [127, 69, 76, 70, 1, 3, 1, 0, 0, 0, 0, 0, 0, 0, 0, 0,
      2, 0, 3, 0, 1, 0, 0, 0, 0, 0, 0, 0, 0, 0, 0, 0,
      0, 0, 0, 0, 0, 0, 0, 0, 52, 0, 32, 0, 0, 0, 0, 0,
      0, 0, 0, 0]"

text \<open>A header of 52 bytes that announces one program header at the offset
  \<^verbatim>\<open>e_phoff = 0x40000000\<close>, far beyond the end of the file.\<close>

definition far_elf :: bytes where
  "far_elf =
     [127, 69, 76, 70, 1, 1, 1, 0, 0, 0, 0, 0, 0, 0, 0, 0,
       2, 0, 3, 0, 1, 0, 0, 0, 0, 0, 0, 0, 0, 0, 0, 64,
       0, 0, 0, 0, 0, 0, 0, 0, 52, 0, 32, 0, 1, 0, 0, 0,
       0, 0, 0, 0]"


subsection \<open>Paths, outcomes and states of one call of \<^verbatim>\<open>diag\<close>\<close>

text \<open>"Must begin with \<^verbatim>\<open>/\<close>" (specification, section 3, InterpreterPath).\<close>

definition absolute :: "path \<Rightarrow> bool" where
  "absolute p = (case p of [] \<Rightarrow> False | b # _ \<Rightarrow> b = ch CHR ''/'')"

text \<open>Two results of a step agree in everything but the state: the same value, or the same
  stop with the same diagnostic.\<close>

definition same_outcome :: "'a step \<Rightarrow> 'a step \<Rightarrow> bool" where
  "same_outcome r1 r2 \<longleftrightarrow>
     (case r1 of
        Cont x _ \<Rightarrow> (case r2 of Cont y _ \<Rightarrow> x = y | Stop _ _ \<Rightarrow> False)
      | Stop st _ \<Rightarrow>
          (case r2 of
             Cont _ _ \<Rightarrow> False
           | Stop st' _ \<Rightarrow>
               (case st of
                  Exit e _ \<Rightarrow> (case st' of Exit e' _ \<Rightarrow> e = e' | _ \<Rightarrow> False)
                | Return \<Rightarrow> st' = Return
                | Fault \<Rightarrow> st' = Fault)))"

text \<open>The state after the five check points of lines 39 to 47 have passed.\<close>

definition after_open :: "state \<Rightarrow> state" where
  "after_open s =
     tick MmapFailed (tick NotExecutable (tick NotRegularFile (tick CannotStat
       (tick UnableToOpen s))))"

text \<open>The script of the specification, section 8, property 6: \<^verbatim>\<open>#!bin/sh\<close> and a newline.\<close>

definition rel_script :: bytes where
  "rel_script = bytes_of ''#!bin/sh'' @ [ch CHR 0x0A]"

subsection \<open>Chains of interpreters (specification, section 8, property 5)\<close>

text \<open>With the accessors \<open>v\<close>, the header fields are readable, all entries of the program header
  table are readable, exactly one of them, the entry \<open>k\<close>, has the type \<^verbatim>\<open>PT_INTERP\<close>, and its
  string is \<open>p\<close>.\<close>

definition sole_interp :: "macros \<Rightarrow> elf_vars \<Rightarrow> bytes \<Rightarrow> path \<Rightarrow> bool" where
  "sole_interp c v m p \<longleftrightarrow>
     (case getp (lget v) m (phoff v) of
        None \<Rightarrow> False
      | Some ph0 \<Rightarrow>
          (case getp (sget v) m (phecnt v) of
             None \<Rightarrow> False
           | Some n \<Rightarrow>
               (case getp (sget v) m (phesz v) of
                  None \<Rightarrow> False
                | Some e \<Rightarrow>
                    (\<exists>k\<in>{..<n}.
                       (\<forall>j\<in>{..<n}.
                          case get (iget v) m (ph0 + j * e) of
                            None \<Rightarrow> False
                          | Some t \<Rightarrow> (t = ELF_PT_INTERP c) = (j = k)) \<and>
                       ph_itrp v m (ph0 + k * e) = Some p))))"

text \<open>"An ELF whose sole \<^verbatim>\<open>PT_INTERP\<close> points to \<open>p\<close>": the bytes \<open>m\<close> have the ELF magic, version 1,
  a recognised class and byte order, and a sole \<^verbatim>\<open>PT_INTERP\<close> entry naming \<open>p\<close>.\<close>

definition names_interp :: "macros \<Rightarrow> bytes \<Rightarrow> path \<Rightarrow> bool" where
  "names_interp c m p \<longleftrightarrow>
     classify m = Elf \<and>
     ELF_VERSION c < length m \<and> ELF_BITS c < length m \<and> ELF_ENDIAN c < length m \<and>
     m ! ELF_VERSION c = 1 \<and>
     (case elf_format c (m ! ELF_BITS c) (m ! ELF_ENDIAN c) of
        None \<Rightarrow> False
      | Some (cls, ord) \<Rightarrow> sole_interp c (accessors c cls ord) m p)"

text \<open>The file at \<open>exe\<close> can be opened, is regular and executable, and is an ELF whose sole
  \<^verbatim>\<open>PT_INTERP\<close> entry names the absolute path \<open>p\<close>.\<close>

definition link :: "macros \<Rightarrow> fs \<Rightarrow> path \<Rightarrow> path \<Rightarrow> bool" where
  "link c files exe p \<longleftrightarrow>
     (case files exe of
        None \<Rightarrow> False
      | Some f \<Rightarrow>
          fstat_ok f \<and> is_reg f \<and> is_exec f \<and> names_interp c (mm f) p \<and> absolute p)"

text \<open>Each path of the list but the last is a file that names the next path.\<close>

fun chain :: "macros \<Rightarrow> fs \<Rightarrow> path list \<Rightarrow> bool" where
  "chain c files (p # q # ps) = (link c files p q \<and> chain c files (q # ps))"
| "chain c files ps = True"

text \<open>The state after one call of \<^verbatim>\<open>diag\<close> on such a file at depth \<open>d\<close>: the entry and the ten
  check points of the call, all passed.\<close>

definition link_state :: "path \<Rightarrow> nat \<Rightarrow> state \<Rightarrow> state" where
  "link_state exe d s =
     tick ExcessiveRecursion (tick PathNotAbsolute (tick NoInterpreter
       (tick UnsupportedElfFormat (tick UnsupportedElfVersion
         (after_open (s\<lparr> trace := trace s @ [Enter exe d] \<rparr>))))))"

text \<open>The state after such calls on the paths of a list, from depth \<open>d\<close> on.\<close>

fun run_links :: "path list \<Rightarrow> nat \<Rightarrow> state \<Rightarrow> state" where
  "run_links [] d s = s"
| "run_links (p # ps) d s = run_links ps (d + 1) (link_state p d s)"

subsection \<open>A run of \<^verbatim>\<open>diag\<close>\<close>

text \<open>The result of a run from \<open>s\<close>: at most \<open>k\<close> check points were counted, \<open>exit_err\<close> grew by
  the number of check points of the trace, an exit carries the counter and its
  diagnostic is the last check point, and the run did not return.\<close>

definition run_ok :: "nat \<Rightarrow> state \<Rightarrow> stop \<times> nat \<times> state \<Rightarrow> bool" where
  "run_ok k s res \<longleftrightarrow>
     (case res of
        (r, d', s') \<Rightarrow>
          exit_err s \<le> exit_err s' \<and> exit_err s' \<le> exit_err s + k \<and>
          length (checks (trace s')) = length (checks (trace s)) + (exit_err s' - exit_err s) \<and>
          (case r of
             Exit e n \<Rightarrow>
               n = exit_err s' \<and> exit_err s < n \<and> trace s' \<noteq> [] \<and> last (trace s') = Check e
           | Return \<Rightarrow> False
           | Fault \<Rightarrow> True))"

subsection \<open>Concrete runs\<close>

text \<open>\<^verbatim>\<open>chroot\<close> and \<^verbatim>\<open>chdir\<close> succeed and \<^verbatim>\<open>execv\<close> fails with \<^verbatim>\<open>ENOENT\<close>, over the files \<open>files\<close>.\<close>

definition env :: "fs \<Rightarrow> sys" where
  "env files = \<lparr> chroot_ok = True, chdir_ok = True, execv_res = ENOENT, root_fs = files \<rparr>"

text \<open>The command line \<^verbatim>\<open>diagexec /rootfs exe\<close>.\<close>

definition argv_of :: "string \<Rightarrow> path list" where
  "argv_of exe = [bytes_of ''diagexec'', bytes_of ''/rootfs'', bytes_of exe]"

definition no_files :: fs where
  "no_files p = None"

text \<open>A script whose interpreter \<^verbatim>\<open>/missing\<close> does not exist.\<close>

definition orphan_script :: bytes where
  "orphan_script = bytes_of ''#!/missing'' @ [ch CHR 0x0A]"

definition orphan_files :: fs where
  "orphan_files p = (if p = bytes_of ''/s'' then Some (regular_exe orphan_script) else None)"

definition static_files :: fs where
  "static_files p = (if p = bytes_of ''/static'' then Some (regular_exe static_elf) else None)"

definition far_files :: fs where
  "far_files p = (if p = bytes_of ''/far'' then Some (regular_exe far_elf) else None)"

text \<open>The state when \<^verbatim>\<open>main\<close> calls \<^verbatim>\<open>diag\<close>: its four check points have passed.\<close>

definition after_main :: state where
  "after_main = tick ExecFailed (tick ChdirFailed (tick ChrootFailed (tick Usage state_init)))"

subsection \<open>A chain of eleven files\<close>

text \<open>An ELF file of the same layout with one program header, a \<^verbatim>\<open>PT_INTERP\<close> entry whose string of
  3 bytes at offset 84 is the path of the two bytes \<open>x\<close> and \<open>y\<close> and its NUL.\<close>

definition elf_naming :: "byte \<Rightarrow> byte \<Rightarrow> bytes" where
  "elf_naming x y =
     [127, 69, 76, 70, 1, 1, 1, 0, 0, 0, 0, 0, 0, 0, 0, 0,
         2, 0, 3, 0, 1, 0, 0, 0, 0, 0, 0, 0, 52, 0, 0, 0,
         0, 0, 0, 0, 0, 0, 0, 0, 52, 0, 32, 0, 1, 0, 0, 0,
         0, 0, 0, 0, 3, 0, 0, 0, 84, 0, 0, 0, 0, 0, 0, 0,
         0, 0, 0, 0, 3, 0, 0, 0, 3, 0, 0, 0, 4, 0, 0, 0,
         1, 0, 0, 0] @
     [x, y, 0]"

text \<open>The paths \<^verbatim>\<open>/0\<close>, \<^verbatim>\<open>/1\<close>, ..., \<^verbatim>\<open>/9\<close>, \<^verbatim>\<open>/:\<close>, \<^verbatim>\<open>/;\<close> (the characters after \<^verbatim>\<open>9\<close> in ASCII).\<close>

definition digit_path :: "nat \<Rightarrow> path" where
  "digit_path i = [ch CHR ''/'', ch CHR ''0'' + of_nat i]"

text \<open>Eleven files, \<^verbatim>\<open>/0\<close> to \<^verbatim>\<open>/:\<close>, each an ELF file naming the next path; \<^verbatim>\<open>/;\<close> does not exist.\<close>

definition digit_files :: fs where
  "digit_files p =
     (case p of
        [x, y] \<Rightarrow>
          if x = ch CHR ''/'' \<and> ch CHR ''0'' \<le> y \<and> y \<le> ch CHR ''0'' + 10
          then Some (regular_exe (elf_naming x (y + 1)))
          else None
      | _ \<Rightarrow> None)"

text \<open>The twelve paths in order.\<close>

definition digit_chain :: "path list" where
  "digit_chain = map digit_path [0..<12]"

section \<open>Lemmas\<close>

subsection \<open>The classification\<close>

lemma prefix_take: "prefix xs ys \<longleftrightarrow> length xs \<le> length ys \<and> take (length xs) ys = xs"
  by (metis append_eq_conv_conj prefix_def prefix_length_le take_is_prefix)

lemma shebang_not_elf: "prefix shebang m \<Longrightarrow> \<not> prefix elf m"
  by (auto simp: prefix_def shebang_def elf_def ch_def)

lemma find_itrp_classify:
  "find_itrp c m s =
     (case classify m of
        Shebang \<Rightarrow> shebang_itrp c m s
      | Elf \<Rightarrow> elf_itrp c m s
      | Unsupported \<Rightarrow> Stop (Exit UnsupportedFileType (exit_err s + 1)) (tick UnsupportedFileType s))"
  by (simp add: find_itrp_def classify_def prefix_take shebang_def elf_def ch_def exit_if_def
      bind_def Let_def tick_def)

lemma classify_short:
  "(length m < 2 \<longrightarrow> classify m \<noteq> Shebang) \<and> (length m < 4 \<longrightarrow> classify m \<noteq> Elf) \<and> classify [] = Unsupported"
  by (auto simp: classify_def prefix_take shebang_def elf_def)

subsection \<open>\<^verbatim>\<open>memchr\<close>, \<^verbatim>\<open>strndup\<close> and the \<^verbatim>\<open>#!\<close> line\<close>

lemma takeWhile_take: "takeWhile P (take n xs) = take n (takeWhile P xs)"
  by (induction xs arbitrary: n) (auto simp: take_Cons split: nat.splits)

lemma memchr_first:
  assumes "length (takeWhile (\<lambda>b. b \<noteq> x) (drop off m)) < n"
    and "n \<le> length m - off"
  shows "memchr m off x n = Some (off + length (takeWhile (\<lambda>b. b \<noteq> x) (drop off m)))"
proof -
  let ?xs = "drop off m"
  let ?L = "takeWhile (\<lambda>b. b \<noteq> x) ?xs"
  have lt: "length ?L < length ?xs" using assms by simp
  have "\<not> (?xs ! length ?L \<noteq> x)" by (rule nth_length_takeWhile [OF lt])
  then have at: "?xs ! length ?L = x" by simp
  have "take n ?xs ! length ?L = x" using assms(1) at by simp
  moreover have "length ?L < length (take n ?xs)" using assms lt by simp
  ultimately have mem: "x \<in> set (take n ?xs)" by (metis nth_mem)
  have "takeWhile (\<lambda>b. b \<noteq> x) (take n ?xs) = ?L"
    using assms(1) by (simp add: takeWhile_take)
  with mem show ?thesis by (simp add: memchr_def)
qed

lemma memchr_none:
  assumes "n \<le> length (takeWhile (\<lambda>b. b \<noteq> x) (drop off m))"
  shows "memchr m off x n = None"
proof -
  let ?xs = "drop off m"
  let ?L = "takeWhile (\<lambda>b. b \<noteq> x) ?xs"
  have "?L = take (length ?L) ?xs" by (rule takeWhile_eq_take)
  then have "take n ?L = take n (take (length ?L) ?xs)" by (rule arg_cong)
  also have "\<dots> = take n ?xs" using assms by (simp add: min_absorb1)
  finally have "take n ?xs = take n ?L" by (rule sym)
  then have "set (take n ?xs) \<subseteq> set ?L" by (simp add: set_take_subset)
  then have "x \<notin> set (take n ?xs)" by (auto dest: set_takeWhileD)
  then show ?thesis by (simp add: memchr_def)
qed

lemma strndup_inside:
  assumes "off + n < length m"
  shows "strndup m off n = Some (takeWhile (\<lambda>b. b \<noteq> 0) (take n (drop off m)))"
proof -
  have "length (takeWhile (\<lambda>b. b \<noteq> 0) (take n (drop off m))) \<le> n"
    by (rule order_trans [OF length_takeWhile_le]) simp
  with assms show ?thesis by (simp add: strndup_def Let_def)
qed

lemma shebang_itrp_line:
  assumes "length (shebang_line m) < min (PATH_MAX c) (length m - length shebang)"
  shows "shebang_itrp c m s =
           Cont (Some (takeWhile (\<lambda>b. b \<noteq> 0) (shebang_line m)))
             (tick DupFailed (tick ShebangTooLong s))"
proof -
  let ?n = "min (PATH_MAX c) (length m - length shebang)"
  have len: "length shebang = 2" by (simp add: shebang_def)
  have mc: "memchr m (length shebang) (ch CHR 0x0A) ?n = Some (length shebang + length (shebang_line m))"
    unfolding shebang_line_def
    by (rule memchr_first) (use assms in \<open>simp_all add: shebang_line_def\<close>)
  have tk: "take (length (shebang_line m)) (drop 2 m) = shebang_line m"
    unfolding shebang_line_def len by (rule takeWhile_eq_take [symmetric])
  have "2 + length (shebang_line m) < length m" using assms len by linarith
  then have sd: "strndup m 2 (length (shebang_line m)) =
      Some (takeWhile (\<lambda>b. b \<noteq> 0) (shebang_line m))"
    by (simp add: strndup_inside tk)
  show ?thesis
    using mc sd by (simp add: shebang_itrp_def Let_def exit_if_null_def bind_def len)
qed

lemma shebang_too_long:
  assumes "min (PATH_MAX c) (length m - length shebang) \<le> length (shebang_line m)"
  shows "shebang_itrp c m s =
           Stop (Exit ShebangTooLong (exit_err s + 1)) (tick ShebangTooLong s)"
proof -
  have "memchr m (length shebang) (ch CHR 0x0A) (min (PATH_MAX c) (length m - length shebang)) = None"
    by (rule memchr_none) (use assms in \<open>simp add: shebang_line_def\<close>)
  then show ?thesis
    by (simp add: shebang_itrp_def Let_def exit_if_null_def bind_def tick_def shebang_def)
qed

lemma line_of_append:
  assumes "ch CHR 0x0A \<notin> set p"
  shows "shebang_line (shebang @ p @ ch CHR 0x0A # rest) = p"
  using assms by (auto simp: shebang_line_def takeWhile_tail)

subsection \<open>The checks of the ELF header\<close>

lemma elf_select_format:
  assumes "ELF_BITS c < length m" "ELF_ENDIAN c < length m"
  shows "elf_select c m =
           Some (case elf_format c (m ! ELF_BITS c) (m ! ELF_ENDIAN c) of
                   None \<Rightarrow>
                     (if unat (m ! ELF_BITS c) = ELF_BITS_32 c then accessors c Class32 Little\<lparr> lget := None, iget := None, sget := None \<rparr>
                      else if unat (m ! ELF_BITS c) = ELF_BITS_64 c then accessors c Class64 Little\<lparr> lget := None, iget := None, sget := None \<rparr>
                      else elf_vars_init)
                 | Some (cls, ord) \<Rightarrow> accessors c cls ord)"
  using assms
  by (simp add: elf_select_def byte_at_def elf_format_def elf_vars_init_def)

lemma elf_itrp_checks:
  assumes "ELF_VERSION c < length m" "ELF_BITS c < length m" "ELF_ENDIAN c < length m"
  shows "elf_itrp c m s =
     (if m ! ELF_VERSION c \<noteq> 1 then
        Stop (Exit UnsupportedElfVersion (exit_err s + 1)) (tick UnsupportedElfVersion s)
      else
        (case elf_format c (m ! ELF_BITS c) (m ! ELF_ENDIAN c) of
           None \<Rightarrow>
             Stop (Exit UnsupportedElfFormat (exit_err s + 2))
               (tick UnsupportedElfFormat (tick UnsupportedElfVersion s))
         | Some (cls, ord) \<Rightarrow>
             elf_phdrs c (accessors c cls ord) m
               (tick UnsupportedElfFormat (tick UnsupportedElfVersion s))))"
proof -
  have v: "byte_at m (ELF_VERSION c) = Some (m ! ELF_VERSION c)"
    using assms(1) by (simp add: byte_at_def)
  show ?thesis
    unfolding elf_itrp_def v elf_select_format [OF assms(2,3)]
    by (cases "elf_format c (m ! ELF_BITS c) (m ! ELF_ENDIAN c)")
       (auto simp: exit_if_def bind_def Let_def tick_def elf_vars_init_def elf_format_def
          split: if_splits elf_class.splits elf_order.splits)
qed

subsection \<open>The scan of the program headers\<close>

declare ph_scan.simps [simp del]

lemma ph_scan_first:
  assumes "getp (sget v) m (phecnt v) = Some n"
    and "getp (sget v) m (phesz v) = Some e"
    and "i + k < n"
    and "\<forall>j<k. \<exists>t. get (iget v) m (ph + j * e) = Some t \<and> t \<noteq> ELF_PT_INTERP c"
    and "get (iget v) m (ph + k * e) = Some (ELF_PT_INTERP c)"
  shows "ph_scan c v m ph i = map_option Some (ph_itrp v m (ph + k * e))"
  using assms(3-5)
proof (induction k arbitrary: ph i)
  case 0
  then show ?case
    by (subst ph_scan.simps) (simp add: assms(1) split: option.splits)
next
  case (Suc k)
  from Suc.prems(2) obtain t where t: "get (iget v) m ph = Some t" "t \<noteq> ELF_PT_INTERP c"
    by fastforce
  have step: "ph_scan c v m ph i = ph_scan c v m (ph + e) (i + 1)"
    using Suc.prems(1) t by (subst ph_scan.simps) (simp add: assms(1,2))
  have "ph_scan c v m (ph + e) (i + 1) = map_option Some (ph_itrp v m (ph + e + k * e))"
  proof (rule Suc.IH)
    show "i + 1 + k < n" using Suc.prems(1) by simp
    show "\<forall>j<k. \<exists>t. get (iget v) m (ph + e + j * e) = Some t \<and> t \<noteq> ELF_PT_INTERP c"
    proof (intro allI impI)
      fix j assume "j < k"
      then have "Suc j < Suc k" by simp
      with Suc.prems(2) have "\<exists>t. get (iget v) m (ph + Suc j * e) = Some t \<and> t \<noteq> ELF_PT_INTERP c"
        by blast
      then show "\<exists>t. get (iget v) m (ph + e + j * e) = Some t \<and> t \<noteq> ELF_PT_INTERP c"
        by (simp add: add.assoc)
    qed
    show "get (iget v) m (ph + e + k * e) = Some (ELF_PT_INTERP c)"
      using Suc.prems(3) by (simp add: add.assoc)
  qed
  with step show ?case by (simp add: add.assoc)
qed

lemma ph_scan_none:
  assumes "getp (sget v) m (phecnt v) = Some n"
    and "getp (sget v) m (phesz v) = Some e"
    and "i + k = n"
    and "\<forall>j<k. \<exists>t. get (iget v) m (ph + j * e) = Some t \<and> t \<noteq> ELF_PT_INTERP c"
  shows "ph_scan c v m ph i = Some None"
  using assms(3-4)
proof (induction k arbitrary: ph i)
  case 0
  then show ?case
    by (subst ph_scan.simps) (simp add: assms(1))
next
  case (Suc k)
  from Suc.prems(2) obtain t where t: "get (iget v) m ph = Some t" "t \<noteq> ELF_PT_INTERP c"
    by fastforce
  have step: "ph_scan c v m ph i = ph_scan c v m (ph + e) (i + 1)"
    using Suc.prems(1) t by (subst ph_scan.simps) (simp add: assms(1,2))
  have "ph_scan c v m (ph + e) (i + 1) = Some None"
  proof (rule Suc.IH)
    show "i + 1 + k = n" using Suc.prems(1) by simp
    show "\<forall>j<k. \<exists>t. get (iget v) m (ph + e + j * e) = Some t \<and> t \<noteq> ELF_PT_INTERP c"
    proof (intro allI impI)
      fix j assume "j < k"
      then have "Suc j < Suc k" by simp
      with Suc.prems(2) have "\<exists>t. get (iget v) m (ph + Suc j * e) = Some t \<and> t \<noteq> ELF_PT_INTERP c"
        by blast
      then show "\<exists>t. get (iget v) m (ph + e + j * e) = Some t \<and> t \<noteq> ELF_PT_INTERP c"
        by (simp add: add.assoc)
    qed
  qed
  with step show ?case by simp
qed

lemma elf_phdrs_first:
  assumes "phoff v = Some po" and "get (lget v) m po = Some ph0"
    and "getp (sget v) m (phecnt v) = Some n"
    and "getp (sget v) m (phesz v) = Some e"
    and "k < n"
    and "\<forall>j<k. \<exists>t. get (iget v) m (ph0 + j * e) = Some t \<and> t \<noteq> ELF_PT_INTERP c"
    and "get (iget v) m (ph0 + k * e) = Some (ELF_PT_INTERP c)"
  shows "elf_phdrs c v m s =
           (case ph_itrp v m (ph0 + k * e) of
              None \<Rightarrow> Stop Fault s
            | Some p \<Rightarrow> Cont (Some p) s)"
proof -
  have "ph_scan c v m ph0 0 = map_option Some (ph_itrp v m (ph0 + k * e))"
    by (rule ph_scan_first [OF assms(3,4) _ assms(6,7)]) (use assms(5) in simp)
  then show ?thesis
    by (simp add: elf_phdrs_def assms(1,2) split: option.splits)
qed

subsection \<open>Every step only appends check points\<close>

lemma checks_append: "checks (xs @ ys) = checks xs @ checks ys"
  by (induction xs rule: checks.induct) auto

lemma checks_map_Check: "checks (map Check es) = es"
  by (induction es) auto

lemma enter_depths_append: "enter_depths (xs @ ys) = enter_depths xs @ enter_depths ys"
  by (induction xs rule: enter_depths.induct) auto

lemma enter_depths_map_Check: "enter_depths (map Check es) = []"
  by (induction es) auto

lemma advn_refl: "advn 0 s s"
  by (simp add: advn_def)

lemma advn_tick: "advn (Suc 0) s (tick e s)"
  unfolding advn_def tick_def by (rule exI [of _ "[e]"]) simp

lemma advn_trans: "advn a s s1 \<Longrightarrow> advn b s1 s2 \<Longrightarrow> advn (a + b) s s2"
  unfolding advn_def
proof (elim exE conjE)
  fix es fs
  assume h: "length es \<le> a" "trace s1 = trace s @ map Check es"
    "exit_err s1 = exit_err s + length es" "length fs \<le> b"
    "trace s2 = trace s1 @ map Check fs" "exit_err s2 = exit_err s1 + length fs"
  show "\<exists>gs. length gs \<le> a + b \<and> trace s2 = trace s @ map Check gs \<and>
     exit_err s2 = exit_err s + length gs"
    by (rule exI [of _ "es @ fs"]) (use h in simp)
qed

lemma advn_mono: "advn a s s' \<Longrightarrow> a \<le> b \<Longrightarrow> advn b s s'"
  unfolding advn_def by (meson order_trans)

lemma advn_exit_err: "advn k s s' \<Longrightarrow> exit_err s \<le> exit_err s' \<and> exit_err s' \<le> exit_err s + k"
  unfolding advn_def by auto

lemma advn_checks:
  "advn k s s' \<Longrightarrow> length (checks (trace s')) = length (checks (trace s)) + (exit_err s' - exit_err s)"
  unfolding advn_def by (auto simp: checks_append checks_map_Check)

lemma advn_enters: "advn k s s' \<Longrightarrow> enter_depths (trace s') = enter_depths (trace s)"
  unfolding advn_def by (auto simp: enter_depths_append enter_depths_map_Check)

lemma tick_fields:
  "exit_err (tick e s) = exit_err s + 1" "trace (tick e s) = trace s @ [Check e]"
  by (simp_all add: tick_def)

lemma ok_exit_if: "ok_step 1 s (exit_if b e s)"
  by (simp add: ok_step_def exit_if_def Let_def advn_tick tick_fields)

lemma ok_exit_if_null: "ok_step 1 s (exit_if_null p e s)"
  by (cases p) (simp_all add: ok_step_def exit_if_null_def Let_def advn_tick tick_fields)

lemma ok_Cont: "ok_step 0 s (Cont x s)"
  by (simp add: ok_step_def advn_refl)

lemma ok_Stop_plain: "st = Fault \<or> st = Return \<Longrightarrow> advn k s s' \<Longrightarrow> ok_step k s (Stop st s')"
  by (auto simp: ok_step_def)

lemma ok_mono: "ok_step a s r \<Longrightarrow> a \<le> b \<Longrightarrow> ok_step b s r"
  by (auto simp: ok_step_def split: step.splits stop.splits intro: advn_mono)

lemma ok_bind:
  assumes "ok_step a s x" and "\<And>y s1. x = Cont y s1 \<Longrightarrow> ok_step b s1 (f y s1)"
  shows "ok_step (a + b) s (bind x f)"
proof (cases x)
  case (Stop st s')
  have "ok_step (a + b) s x" by (rule ok_mono [OF assms(1)]) simp
  with Stop show ?thesis by (simp add: bind_def ok_step_def)
next
  case (Cont y s1)
  then have a: "advn a s s1" using assms(1) by (simp add: ok_step_def)
  have b: "ok_step b s1 (f y s1)" using assms(2) Cont by simp
  have le: "exit_err s \<le> exit_err s1" using a by (simp add: advn_exit_err)
  show ?thesis
    using b le unfolding Cont bind_def ok_step_def
    by (auto split: step.splits stop.splits intro: advn_trans [OF a])
qed

lemma ok_diag_open: "ok_step 5 s (diag_open files exe s)"
proof -
  have "ok_step (1 + (1 + (1 + (1 + (1 + 0))))) s (diag_open files exe s)"
    unfolding diag_open_def
    by (intro ok_bind ok_exit_if ok_exit_if_null ok_Cont)
  then show ?thesis by (rule ok_mono) simp
qed

lemma ok_shebang_itrp: "ok_step 2 s (shebang_itrp c m s)"
proof -
  have "ok_step (1 + 1) s (shebang_itrp c m s)"
    unfolding shebang_itrp_def Let_def
  proof (rule ok_bind [OF ok_exit_if_null])
    fix nl s1
    show "ok_step 1 s1 (case strndup m (length shebang) (nl - 2) of
             None \<Rightarrow> Stop Fault (tick DupFailed s1)
           | Some p \<Rightarrow> bind (exit_if_null (Some p) DupFailed s1) (\<lambda>itrp. Cont (Some itrp)))"
    proof (cases "strndup m (length shebang) (nl - 2)")
      case None
      then show ?thesis by (simp add: ok_Stop_plain advn_tick del: One_nat_def) (simp add: ok_Stop_plain advn_tick)
    next
      case (Some p)
      have "ok_step (1 + 0) s1 (bind (exit_if_null (Some p) DupFailed s1) (\<lambda>itrp. Cont (Some itrp)))"
        by (intro ok_bind ok_exit_if_null ok_Cont)
      with Some show ?thesis by (simp del: One_nat_def)
    qed
  qed
  then show ?thesis by (rule ok_mono) simp
qed

lemma ok_elf_phdrs: "ok_step 0 s (elf_phdrs c v m s)"
  by (auto simp: elf_phdrs_def ok_step_def advn_refl split: option.splits)

lemma ok_elf_itrp: "ok_step 2 s (elf_itrp c m s)"
proof (cases "byte_at m (ELF_VERSION c)")
  case None
  then show ?thesis
    by (simp add: elf_itrp_def ok_Stop_plain advn_mono [OF advn_tick])
next
  case (Some ver)
  have "ok_step (1 + 1) s (elf_itrp c m s)"
    unfolding elf_itrp_def Some option.case
  proof (rule ok_bind [OF ok_exit_if])
    fix y s1
    show "ok_step 1 s1 (case elf_select c m of None \<Rightarrow> Stop Fault s1
        | Some v \<Rightarrow> bind (exit_if (lget v = None) UnsupportedElfFormat s1) (\<lambda>_. elf_phdrs c v m))"
    proof (cases "elf_select c m")
      case None
      then show ?thesis by (simp add: ok_Stop_plain advn_mono [OF advn_refl])
    next
      case (Some v)
      have "ok_step (1 + 0) s1 (bind (exit_if (lget v = None) UnsupportedElfFormat s1) (\<lambda>_. elf_phdrs c v m))"
        by (intro ok_bind ok_exit_if ok_elf_phdrs)
      with Some show ?thesis by (simp del: One_nat_def)
    qed
  qed
  then show ?thesis by (rule ok_mono) simp
qed

lemma ok_find_itrp: "ok_step 2 s (find_itrp c m s)"
proof -
  have "ok_step (1 + 0) s (bind (exit_if True UnsupportedFileType s) (\<lambda>_. Cont None))"
    by (intro ok_bind ok_exit_if ok_Cont)
  then show ?thesis
    by (auto simp: find_itrp_def ok_shebang_itrp ok_elf_itrp intro: ok_mono)
qed

lemma ok_check_itrp: "ok_step 2 s (check_itrp itrp s)"
proof -
  have "ok_step (1 + (1 + 0)) s (check_itrp itrp s)"
    unfolding check_itrp_def by (intro ok_bind ok_exit_if ok_exit_if_null ok_Cont)
  then show ?thesis by (rule ok_mono) simp
qed

lemma ok_diag_file: "ok_step 9 s (diag_file c files exe s)"
proof -
  have "ok_step (5 + (2 + 2)) s (diag_file c files exe s)"
    unfolding diag_file_def
    by (intro ok_bind ok_diag_open ok_find_itrp ok_check_itrp)
  then show ?thesis by (rule ok_mono) simp
qed

subsection \<open>Evaluation on concrete files\<close>

lemma find_itrp_elf_first:
  assumes "classify m = Elf"
    and "ELF_VERSION c < length m" and "ELF_BITS c < length m" and "ELF_ENDIAN c < length m"
    and "m ! ELF_VERSION c = 1"
    and "elf_format c (m ! ELF_BITS c) (m ! ELF_ENDIAN c) = Some (cls, ord)"
    and "v = accessors c cls ord"
    and "getp (lget v) m (phoff v) = Some ph0"
    and "getp (sget v) m (phecnt v) = Some n"
    and "getp (sget v) m (phesz v) = Some e"
    and "k < n"
    and "\<forall>j<k. \<exists>t. get (iget v) m (ph0 + j * e) = Some t \<and> t \<noteq> ELF_PT_INTERP c"
    and "get (iget v) m (ph0 + k * e) = Some (ELF_PT_INTERP c)"
  shows "find_itrp c m s =
           (case ph_itrp v m (ph0 + k * e) of
              None \<Rightarrow> Stop Fault (tick UnsupportedElfFormat (tick UnsupportedElfVersion s))
            | Some p \<Rightarrow>
                Cont (Some p) (tick UnsupportedElfFormat (tick UnsupportedElfVersion s)))"
proof -
  obtain po where po: "phoff v = Some po" "get (lget v) m po = Some ph0"
    using assms(8) by (auto simp: getp_def split: option.splits)
  have "find_itrp c m s =
      elf_phdrs c v m (tick UnsupportedElfFormat (tick UnsupportedElfVersion s))"
    using assms(1,5,6,7)
    by (simp add: find_itrp_classify elf_itrp_checks [OF assms(2,3,4)])
  also have "\<dots> = (case ph_itrp v m (ph0 + k * e) of
              None \<Rightarrow> Stop Fault (tick UnsupportedElfFormat (tick UnsupportedElfVersion s))
            | Some p \<Rightarrow>
                Cont (Some p) (tick UnsupportedElfFormat (tick UnsupportedElfVersion s)))"
    by (rule elf_phdrs_first [OF po assms(9,10,11,12,13)])
  finally show ?thesis .
qed

lemma tick2_init:
  "tick e2 (tick e1 state_init) = \<lparr> exit_err = 2, trace = [Check e1, Check e2] \<rparr>"
  by (simp add: tick_def state_init_def)

lemmas read_defs = getp_def get_def rd_def byte_at_def be_nat_def
  le_sget_def be_sget_def le_iget_def be_iget_def le32_lget_def be32_lget_def
  le64_lget_def be64_lget_def

subsection \<open>The outcome of a step does not depend on the counters\<close>

lemma same_exit_if: "same_outcome (exit_if b e s) (exit_if b e t)"
  by (simp add: same_outcome_def exit_if_def Let_def)

lemma same_exit_if_null: "same_outcome (exit_if_null p e s) (exit_if_null p e t)"
  by (cases p) (simp_all add: same_outcome_def exit_if_null_def Let_def)

lemma same_Cont: "same_outcome (Cont x s) (Cont x t)"
  by (simp add: same_outcome_def)

lemma same_Stop: "st = Fault \<or> st = Return \<Longrightarrow> same_outcome (Stop st s) (Stop st t)"
  by (auto simp: same_outcome_def)

lemma same_bind:
  assumes "same_outcome x y" and "\<And>v s1 t1. same_outcome (f v s1) (g v t1)"
  shows "same_outcome (bind x f) (bind y g)"
proof (cases x)
  case (Stop st s')
  with assms(1) show ?thesis
    by (cases y) (auto simp: same_outcome_def bind_def split: stop.splits)
next
  case (Cont v s1)
  with assms(1) obtain t1 where y: "y = Cont v t1"
    by (cases y) (auto simp: same_outcome_def)
  show ?thesis using assms(2) [of v s1 t1] by (simp add: Cont y bind_def)
qed

lemma same_shebang_itrp: "same_outcome (shebang_itrp c m s) (shebang_itrp c m t)"
  unfolding shebang_itrp_def Let_def
proof (rule same_bind [OF same_exit_if_null])
  fix nl s1 t1
  show "same_outcome
     (case strndup m (length shebang) (nl - 2) of
        None \<Rightarrow> Stop Fault (tick DupFailed s1)
      | Some p \<Rightarrow> bind (exit_if_null (Some p) DupFailed s1) (\<lambda>itrp. Cont (Some itrp)))
     (case strndup m (length shebang) (nl - 2) of
        None \<Rightarrow> Stop Fault (tick DupFailed t1)
      | Some p \<Rightarrow> bind (exit_if_null (Some p) DupFailed t1) (\<lambda>itrp. Cont (Some itrp)))"
    by (cases "strndup m (length shebang) (nl - 2)")
       (auto intro!: same_bind same_exit_if_null same_Cont same_Stop)
qed

lemma same_elf_phdrs: "same_outcome (elf_phdrs c v m s) (elf_phdrs c v m t)"
  by (auto simp: elf_phdrs_def same_Cont same_Stop split: option.splits)

lemma same_elf_itrp: "same_outcome (elf_itrp c m s) (elf_itrp c m t)"
proof (cases "byte_at m (ELF_VERSION c)")
  case None
  then show ?thesis by (simp add: elf_itrp_def same_Stop)
next
  case (Some ver)
  show ?thesis
    unfolding elf_itrp_def Some option.case
  proof (rule same_bind [OF same_exit_if])
    fix u s1 t1
    show "same_outcome
       (case elf_select c m of None \<Rightarrow> Stop Fault s1
        | Some v \<Rightarrow> bind (exit_if (lget v = None) UnsupportedElfFormat s1) (\<lambda>_. elf_phdrs c v m))
       (case elf_select c m of None \<Rightarrow> Stop Fault t1
        | Some v \<Rightarrow> bind (exit_if (lget v = None) UnsupportedElfFormat t1) (\<lambda>_. elf_phdrs c v m))"
      by (cases "elf_select c m")
         (auto intro!: same_bind same_exit_if same_elf_phdrs same_Stop)
  qed
qed

lemma same_find_itrp: "same_outcome (find_itrp c m s) (find_itrp c m t)"
  by (auto simp: find_itrp_def same_shebang_itrp same_elf_itrp
      intro!: same_bind same_exit_if same_Cont)

lemma find_itrp_any_state:
  assumes "find_itrp c m s0 = Cont x s1"
  shows "\<exists>t1. find_itrp c m t = Cont x t1"
  using same_find_itrp [of c m s0 t] assms
  by (cases "find_itrp c m t") (auto simp: same_outcome_def)

lemma diag_open_ok:
  assumes "files exe = Some f" and "fstat_ok f" and "is_reg f" and "is_exec f"
  shows "diag_open files exe s = Cont f (after_open s)"
  using assms by (simp add: diag_open_def after_open_def exit_if_def exit_if_null_def bind_def Let_def)

lemma check_itrp_Some:
  "check_itrp (Some p) s =
     (if absolute p then Cont p (tick PathNotAbsolute (tick NoInterpreter s))
      else Stop (Exit PathNotAbsolute (exit_err s + 2))
             (tick PathNotAbsolute (tick NoInterpreter s)))"
  by (cases p)
     (simp_all add: check_itrp_def absolute_def exit_if_def exit_if_null_def bind_def Let_def
       tick_def)

lemma check_itrp_None:
  "check_itrp None s = Stop (Exit NoInterpreter (exit_err s + 1)) (tick NoInterpreter s)"
  by (simp add: check_itrp_def exit_if_null_def bind_def Let_def tick_def)

declare diag.simps [simp del]

lemma diag_Stop:
  assumes "diag_file c files exe (s\<lparr> trace := trace s @ [Enter exe d] \<rparr>) = Stop r s'"
  shows "diag c files exe d s = (r, d, s')"
  by (subst diag.simps) (simp add: assms)

lemma advn_after_open: "advn 5 s (after_open s)"
  unfolding advn_def after_open_def tick_def
  by (rule exI [of _ "[UnableToOpen, CannotStat, NotRegularFile, NotExecutable, MmapFailed]"])
     simp

subsection \<open>One link of a chain\<close>

lemma sole_interp_find:
  assumes "classify m = Elf"
    and "ELF_VERSION c < length m" and "ELF_BITS c < length m" and "ELF_ENDIAN c < length m"
    and "m ! ELF_VERSION c = 1"
    and "elf_format c (m ! ELF_BITS c) (m ! ELF_ENDIAN c) = Some (cls, ord)"
    and "sole_interp c (accessors c cls ord) m p"
  shows "find_itrp c m s =
           Cont (Some p) (tick UnsupportedElfFormat (tick UnsupportedElfVersion s))"
proof -
  let ?v = "accessors c cls ord"
  obtain ph0 where g1: "getp (lget ?v) m (phoff ?v) = Some ph0"
    using assms(7) by (cases "getp (lget ?v) m (phoff ?v)") (simp_all add: sole_interp_def)
  obtain n where g2: "getp (sget ?v) m (phecnt ?v) = Some n"
    using assms(7) by (cases "getp (sget ?v) m (phecnt ?v)") (simp_all add: sole_interp_def g1)
  obtain e where g3: "getp (sget ?v) m (phesz ?v) = Some e"
    using assms(7) by (cases "getp (sget ?v) m (phesz ?v)") (simp_all add: sole_interp_def g1 g2)
  have "\<exists>k\<in>{..<n}.
         (\<forall>j\<in>{..<n}. case get (iget ?v) m (ph0 + j * e) of
             None \<Rightarrow> False | Some t \<Rightarrow> (t = ELF_PT_INTERP c) = (j = k)) \<and>
         ph_itrp ?v m (ph0 + k * e) = Some p"
    using assms(7) by (simp add: sole_interp_def g1 g2 g3)
  then obtain k where k: "k < n"
    and all: "\<And>j. j < n \<Longrightarrow> (case get (iget ?v) m (ph0 + j * e) of
             None \<Rightarrow> False | Some t \<Rightarrow> (t = ELF_PT_INTERP c) = (j = k))"
    and p: "ph_itrp ?v m (ph0 + k * e) = Some p"
    by auto
  have before: "\<forall>j<k. \<exists>t. get (iget ?v) m (ph0 + j * e) = Some t \<and> t \<noteq> ELF_PT_INTERP c"
  proof (intro allI impI)
    fix j assume "j < k"
    then have "j < n" "j \<noteq> k" using k by simp_all
    with all [of j] show "\<exists>t. get (iget ?v) m (ph0 + j * e) = Some t \<and> t \<noteq> ELF_PT_INTERP c"
      by (cases "get (iget ?v) m (ph0 + j * e)") simp_all
  qed
  have at: "get (iget ?v) m (ph0 + k * e) = Some (ELF_PT_INTERP c)"
    using all [OF k] by (cases "get (iget ?v) m (ph0 + k * e)") simp_all
  show ?thesis
    using find_itrp_elf_first [OF assms(1-6) refl g1 g2 g3 k before at, of s] by (simp add: p)
qed

lemma names_interp_find:
  assumes "names_interp c m p"
  shows "find_itrp c m s =
           Cont (Some p) (tick UnsupportedElfFormat (tick UnsupportedElfVersion s))"
  using assms unfolding names_interp_def
  by (auto split: option.splits intro: sole_interp_find)

lemma link_diag_file:
  assumes "link c files exe p"
  shows "diag_file c files exe s =
           Cont p (tick PathNotAbsolute (tick NoInterpreter
             (tick UnsupportedElfFormat (tick UnsupportedElfVersion (after_open s)))))"
proof -
  from assms obtain f where f: "files exe = Some f" "fstat_ok f" "is_reg f" "is_exec f"
      "names_interp c (mm f) p" "absolute p"
    unfolding link_def by (auto split: option.splits)
  show ?thesis
    by (simp add: diag_file_def diag_open_ok [where files = files and exe = exe, OF f(1-4)]
        bind_def names_interp_find [OF f(5)] check_itrp_Some f(6))
qed

lemma link_state_fields:
  "exit_err (link_state exe d s) = exit_err s + 10"
  "trace (link_state exe d s) = trace s @ Enter exe d #
     map Check [UnableToOpen, CannotStat, NotRegularFile, NotExecutable, MmapFailed,
       UnsupportedElfVersion, UnsupportedElfFormat, NoInterpreter, PathNotAbsolute,
       ExcessiveRecursion]"
  by (simp_all add: link_state_def after_open_def tick_def)

lemma diag_link_rec:
  assumes "link c files exe p" and "d < MAX_DIAG_DEPTH"
  shows "diag c files exe d s = diag c files p (d + 1) (link_state exe d s)"
  using assms(2)
  by (subst diag.simps)
     (simp add: link_diag_file [OF assms(1)] exit_if_def Let_def link_state_def)

lemma diag_link_stop:
  assumes "link c files exe p" and "MAX_DIAG_DEPTH \<le> d"
  shows "diag c files exe d s =
           (Exit ExcessiveRecursion (exit_err s + 10), d + 1, link_state exe d s)"
  using assms(2)
  by (subst diag.simps)
     (simp add: link_diag_file [OF assms(1)] exit_if_def Let_def link_state_fields
        link_state_def [symmetric])

lemma run_links_snoc:
  "run_links (ps @ [p]) d s = link_state p (d + length ps) (run_links ps d s)"
  by (induction ps arbitrary: d s) simp_all

lemma run_links_exit_err: "exit_err (run_links ps d s) = exit_err s + 10 * length ps"
  by (induction ps arbitrary: d s) (simp_all add: link_state_fields)

lemma run_links_enters:
  "enter_depths (trace (run_links ps d s)) = enter_depths (trace s) @ [d..<d + length ps]"
proof (induction ps arbitrary: d s)
  case Nil
  then show ?case by simp
next
  case (Cons p ps)
  have a: "enter_depths (trace (link_state p d s)) = enter_depths (trace s) @ [d]"
    by (simp add: link_state_fields enter_depths_append)
  have "d < d + length (p # ps)" by simp
  then have "[d..<d + length (p # ps)] = d # [Suc d..<d + length (p # ps)]"
    by (rule upt_conv_Cons)
  then have b: "[d..<d + length (p # ps)] = d # [d + 1..<d + 1 + length ps]"
    by simp
  have "enter_depths (trace (run_links (p # ps) d s)) =
      enter_depths (trace (link_state p d s)) @ [d + 1..<d + 1 + length ps]"
    using Cons.IH [of "d + 1" "link_state p d s"] by simp
  also have "\<dots> = enter_depths (trace s) @ (d # [d + 1..<d + 1 + length ps])"
    by (simp only: a append_assoc append_Cons append_Nil)
  also have "\<dots> = enter_depths (trace s) @ [d..<d + length (p # ps)]"
    by (simp only: b)
  finally show ?case .
qed

lemma diag_chain:
  assumes "chain c files (p # ps)" and "ps \<noteq> []"
    and "d + length ps = Suc MAX_DIAG_DEPTH"
  shows "diag c files p d s =
           (Exit ExcessiveRecursion (exit_err s + 10 * length ps), Suc MAX_DIAG_DEPTH,
            run_links (butlast (p # ps)) d s)"
  using assms
proof (induction ps arbitrary: p d s)
  case Nil
  then show ?case by simp
next
  case (Cons q qs)
  have lk: "link c files p q" using Cons.prems(1) by simp
  show ?case
  proof (cases qs)
    case Nil
    then have d: "MAX_DIAG_DEPTH \<le> d" "d + 1 = Suc MAX_DIAG_DEPTH" using Cons.prems(3) by simp_all
    show ?thesis
      using diag_link_stop [OF lk d(1), of s] d(2) by (simp add: Nil)
  next
    case (Cons r rs)
    then have d: "d < MAX_DIAG_DEPTH" using Cons.prems(3) by simp
    have ch: "chain c files (q # qs)" using Cons.prems(1) by simp
    have "diag c files q (d + 1) (link_state p d s) =
        (Exit ExcessiveRecursion (exit_err (link_state p d s) + 10 * length qs),
         Suc MAX_DIAG_DEPTH, run_links (butlast (q # qs)) (d + 1) (link_state p d s))"
      by (rule Cons.IH [OF ch]) (use Cons Cons.prems(3) in simp_all)
    then show ?thesis
      by (simp add: diag_link_rec [OF lk d] link_state_fields Cons)
  qed
qed

subsection \<open>\<^verbatim>\<open>diag\<close> never returns; its counters and depths\<close>

lemma elf_select_phoff:
  assumes "elf_select c m = Some v" and "lget v \<noteq> None"
  shows "phoff v \<noteq> None"
  using assms
  by (auto simp: elf_select_def elf_vars_init_def split: option.splits if_splits)

lemma elf_phdrs_Return: "elf_phdrs c v m s = Stop Return s' \<Longrightarrow> phoff v = None"
  by (auto simp: elf_phdrs_def split: option.splits)

lemma elf_itrp_no_return: "elf_itrp c m s \<noteq> Stop Return s'"
proof
  assume r: "elf_itrp c m s = Stop Return s'"
  then obtain ver where ver: "byte_at m (ELF_VERSION c) = Some ver"
    by (cases "byte_at m (ELF_VERSION c)") (simp_all add: elf_itrp_def)
  from r ver obtain v where v: "elf_select c m = Some v"
    by (cases "elf_select c m")
       (auto simp: elf_itrp_def exit_if_def bind_def Let_def split: if_splits)
  from r ver v have "lget v \<noteq> None"
    by (auto simp: elf_itrp_def exit_if_def bind_def Let_def split: if_splits)
  moreover from r ver v have "phoff v = None"
    by (auto simp: elf_itrp_def exit_if_def bind_def Let_def split: if_splits
        dest: elf_phdrs_Return)
  ultimately show False using elf_select_phoff [OF v] by simp
qed

lemma shebang_itrp_no_return: "shebang_itrp c m s \<noteq> Stop Return s'"
  by (auto simp: shebang_itrp_def exit_if_null_def bind_def Let_def split: option.splits)

lemma find_itrp_no_return: "find_itrp c m s \<noteq> Stop Return s'"
  by (auto simp: find_itrp_def elf_itrp_no_return shebang_itrp_no_return exit_if_def
      bind_def Let_def)

lemma diag_open_no_return: "diag_open files exe s \<noteq> Stop Return s'"
  by (auto simp: diag_open_def exit_if_def exit_if_null_def bind_def Let_def
      split: option.splits if_splits)

lemma check_itrp_no_return: "check_itrp itrp s \<noteq> Stop Return s'"
  by (auto simp: check_itrp_def exit_if_def exit_if_null_def bind_def Let_def
      split: option.splits if_splits)

lemma diag_file_no_return: "diag_file c files exe s \<noteq> Stop Return s'"
proof
  assume r: "diag_file c files exe s = Stop Return s'"
  show False
  proof (cases "diag_open files exe s")
    case (Stop st s1)
    with r show False using diag_open_no_return [of files exe s s'] 
      by (simp add: diag_file_def bind_def)
  next
    case (Cont f s1)
    show False
    proof (cases "find_itrp c (mm f) s1")
      case (Stop st s2)
      with r Cont show False using find_itrp_no_return [of c "mm f" s1 s']
        by (simp add: diag_file_def bind_def)
    next
      case c2: (Cont itrp s2)
      with r Cont show False using check_itrp_no_return [of itrp s2 s']
        by (simp add: diag_file_def bind_def)
    qed
  qed
qed

lemma diag_no_return: "fst (diag c files exe d s) \<noteq> Return"
proof (induction c files exe d s rule: diag.induct)
  case (1 c files exe d s)
  let ?s0 = "s\<lparr> trace := trace s @ [Enter exe d] \<rparr>"
  show ?case
  proof (cases "diag_file c files exe ?s0")
    case (Stop st s')
    then have "st \<noteq> Return" using diag_file_no_return [of c files exe ?s0 s'] by auto
    with Stop show ?thesis by (subst diag.simps) simp
  next
    case (Cont itrp s')
    show ?thesis
    proof (cases "exit_if (MAX_DIAG_DEPTH < d + 1) ExcessiveRecursion s'")
      case (Stop st s'')
      then have "st \<noteq> Return" by (auto simp: exit_if_def Let_def split: if_splits)
      with Cont Stop show ?thesis by (subst diag.simps) simp
    next
      case c2: (Cont u s'')
      from "1.IH" [OF Cont c2] Cont c2 show ?thesis by (subst diag.simps) simp
    qed
  qed
qed

lemma run_ok_after:
  assumes "exit_err s0 = exit_err s" and "checks (trace s0) = checks (trace s)"
    and "advn a s0 s1" and "run_ok b s1 res" and "a + b \<le> k"
  shows "run_ok k s res"
proof -
  obtain r d' s' where res: "res = (r, d', s')" by (cases res)
  have e: "exit_err s0 \<le> exit_err s1" "exit_err s1 \<le> exit_err s0 + a"
    using advn_exit_err [OF assms(3)] by simp_all
  have c: "length (checks (trace s1)) = length (checks (trace s0)) + (exit_err s1 - exit_err s0)"
    by (rule advn_checks [OF assms(3)])
  show ?thesis
    using assms(1,2,4,5) e c unfolding res run_ok_def
    by (auto split: stop.splits)
qed

lemma run_ok_stop:
  assumes "exit_err s0 = exit_err s" and "checks (trace s0) = checks (trace s)"
    and "ok_step a s0 (Stop st s' :: 'a step)" and "st \<noteq> Return" and "a \<le> k"
  shows "run_ok k s (st, d', s')"
proof -
  have adv: "advn a s0 s'" using assms(3) by (simp add: ok_step_def)
  have e: "exit_err s0 \<le> exit_err s'" "exit_err s' \<le> exit_err s0 + a"
    using advn_exit_err [OF adv] by simp_all
  have c: "length (checks (trace s')) = length (checks (trace s0)) + (exit_err s' - exit_err s0)"
    by (rule advn_checks [OF adv])
  show ?thesis
    using assms(1,2,3,4,5) e c unfolding run_ok_def ok_step_def
    by (auto split: stop.splits)
qed

lemma diag_run_ok:
  "d \<le> MAX_DIAG_DEPTH \<Longrightarrow> run_ok (10 * (Suc MAX_DIAG_DEPTH - d)) s (diag c files exe d s)"
proof (induction c files exe d s rule: diag.induct)
  case (1 c files exe d s)
  let ?s0 = "s\<lparr> trace := trace s @ [Enter exe d] \<rparr>"
  let ?k = "10 * (Suc MAX_DIAG_DEPTH - d)"
  have s0: "exit_err ?s0 = exit_err s" "checks (trace ?s0) = checks (trace s)"
    by (simp_all add: checks_append)
  have "1 \<le> Suc MAX_DIAG_DEPTH - d" using "1.prems" by simp
  then have k10: "10 \<le> ?k" by linarith
  then have k9: "9 \<le> ?k" by linarith
  have okf: "ok_step 9 ?s0 (diag_file c files exe ?s0)" by (rule ok_diag_file)
  show ?case
  proof (cases "diag_file c files exe ?s0")
    case (Stop st s')
    then have nr: "st \<noteq> Return" using diag_file_no_return [of c files exe ?s0 s'] by auto
    have "ok_step 9 ?s0 (Stop st s' :: path step)" using okf Stop by simp
    then have "run_ok ?k s (st, d, s')"
      by (rule run_ok_stop [OF s0 _ nr k9])
    with Stop show ?thesis by (subst diag.simps) simp
  next
    case (Cont itrp s')
    then have adv: "advn 9 ?s0 s'" using okf by (simp add: ok_step_def)
    have oke: "ok_step 1 s' (exit_if (MAX_DIAG_DEPTH < d + 1) ExcessiveRecursion s')"
      by (rule ok_exit_if)
    show ?thesis
    proof (cases "exit_if (MAX_DIAG_DEPTH < d + 1) ExcessiveRecursion s'")
      case (Stop st s'')
      then have nr: "st \<noteq> Return" by (auto simp: exit_if_def Let_def split: if_splits)
      have "ok_step 1 s' (Stop st s'' :: unit step)" using oke Stop by simp
      then have "run_ok 1 s' (st, d + 1, s'')"
        by (rule run_ok_stop [OF refl refl _ nr order_refl])
      then have "run_ok ?k s (st, d + 1, s'')"
        by (rule run_ok_after [OF s0 adv]) (use k10 in linarith)
      with Cont Stop show ?thesis by (subst diag.simps) simp
    next
      case c2: (Cont u s'')
      then have d: "d < MAX_DIAG_DEPTH" by (auto simp: exit_if_def Let_def split: if_splits)
      have adv1: "advn 1 s' s''" using oke c2 by (simp add: ok_step_def)
      have adv10: "advn (9 + 1) ?s0 s''" by (rule advn_trans [OF adv adv1])
      have ih: "run_ok (10 * (Suc MAX_DIAG_DEPTH - (d + 1))) s'' (diag c files itrp (d + 1) s'')"
        by (rule "1.IH" [OF Cont c2]) (use d in simp)
      have "run_ok ?k s (diag c files itrp (d + 1) s'')"
        by (rule run_ok_after [OF s0 adv10 ih]) (use d in simp)
      with Cont c2 show ?thesis by (subst diag.simps) simp
    qed
  qed
qed

lemma diag_enters:
  "d \<le> MAX_DIAG_DEPTH \<Longrightarrow>
   \<exists>k. enter_depths (trace (snd (snd (diag c files exe d s)))) =
         enter_depths (trace s) @ [d..<k] \<and> d < k \<and> k \<le> Suc MAX_DIAG_DEPTH"
proof (induction c files exe d s rule: diag.induct)
  case (1 c files exe d s)
  let ?s0 = "s\<lparr> trace := trace s @ [Enter exe d] \<rparr>"
  have s0: "enter_depths (trace ?s0) = enter_depths (trace s) @ [d..<Suc d]"
    by (simp add: enter_depths_append)
  have okf: "ok_step 9 ?s0 (diag_file c files exe ?s0)" by (rule ok_diag_file)
  show ?case
  proof (cases "diag_file c files exe ?s0")
    case (Stop st s')
    then have "advn 9 ?s0 s'" using okf by (simp add: ok_step_def)
    then have "enter_depths (trace s') = enter_depths (trace s) @ [d..<Suc d]"
      using s0 by (simp add: advn_enters)
    moreover have "diag c files exe d s = (st, d, s')"
      using Stop by (subst diag.simps) simp
    ultimately show ?thesis using "1.prems" by (intro exI [of _ "Suc d"]) simp
  next
    case (Cont itrp s')
    then have adv: "advn 9 ?s0 s'" using okf by (simp add: ok_step_def)
    have oke: "ok_step 1 s' (exit_if (MAX_DIAG_DEPTH < d + 1) ExcessiveRecursion s')"
      by (rule ok_exit_if)
    show ?thesis
    proof (cases "exit_if (MAX_DIAG_DEPTH < d + 1) ExcessiveRecursion s'")
      case (Stop st s'')
      then have "advn 1 s' s''" using oke by (simp add: ok_step_def)
      then have "enter_depths (trace s'') = enter_depths (trace s) @ [d..<Suc d]"
        using s0 adv by (simp add: advn_enters)
      moreover have "diag c files exe d s = (st, d + 1, s'')"
        using Cont Stop by (subst diag.simps) simp
      ultimately show ?thesis using "1.prems" by (intro exI [of _ "Suc d"]) simp
    next
      case c2: (Cont u s'')
      then have d: "d < MAX_DIAG_DEPTH" by (auto simp: exit_if_def Let_def split: if_splits)
      have "advn 1 s' s''" using oke c2 by (simp add: ok_step_def)
      then have e: "enter_depths (trace s'') = enter_depths (trace s) @ [d..<Suc d]"
        using s0 adv by (simp add: advn_enters)
      have "\<exists>k. enter_depths (trace (snd (snd (diag c files itrp (d + 1) s'')))) =
         enter_depths (trace s'') @ [d + 1..<k] \<and> d + 1 < k \<and> k \<le> Suc MAX_DIAG_DEPTH"
        by (rule "1.IH" [OF Cont c2]) (use d in simp)
      then obtain k where k: "enter_depths (trace (snd (snd (diag c files itrp (d + 1) s'')))) =
         enter_depths (trace s'') @ [d + 1..<k]" "d + 1 < k" "k \<le> Suc MAX_DIAG_DEPTH"
        by blast
      have "[d..<k] = d # [d + 1..<k]" using k(2) by (simp add: upt_conv_Cons)
      then have "enter_depths (trace (snd (snd (diag c files itrp (d + 1) s'')))) =
          enter_depths (trace s) @ [d..<k]"
        using k(1) e by simp
      moreover have "diag c files exe d s = diag c files itrp (d + 1) s''"
        using Cont c2 by (subst diag.simps) simp
      ultimately show ?thesis using k(2,3) by (intro exI [of _ k]) simp
    qed
  qed
qed

subsection \<open>\<^verbatim>\<open>main\<close>\<close>

lemma main_pre_ok: "ok_step 3 s (main_pre w argv s)"
proof -
  have "ok_step (1 + (1 + (1 + 0))) s (main_pre w argv s)"
    unfolding main_pre_def by (intro ok_bind ok_exit_if ok_Cont)
  then show ?thesis by (rule ok_mono) simp
qed

lemma state_init_fields: "exit_err state_init = 0" "trace state_init = []"
  by (simp_all add: state_init_def)

lemma run_ok_init:
  assumes "advn a state_init s1" and "run_ok b s1 (Exit e n, d, s')"
  shows "last (trace s') = Check e \<and> n = exit_err s' \<and> length (checks (trace s')) = n \<and>
         0 < n \<and> n \<le> a + b"
proof -
  have "run_ok (a + b) state_init (Exit e n, d, s')"
    by (rule run_ok_after [OF refl refl assms]) simp
  then show ?thesis by (simp add: run_ok_def state_init_fields)
qed

lemma main_exit:
  assumes "main c w argv = (Exits n eo, d, s')"
  shows "\<exists>e. eo = Some e \<and> last (trace s') = Check e \<and> n = exit_err s' \<and>
           length (checks (trace s')) = n \<and> 0 < n \<and> n \<le> 114"
proof (cases "main_pre w argv state_init")
  case (Stop st s1)
  have ok: "ok_step 3 state_init (Stop st s1 :: unit step)"
    using main_pre_ok [of state_init w argv] Stop by simp
  from assms Stop obtain e where st: "st = Exit e n" "eo = Some e" "s' = s1"
    by (cases st) (auto simp: main_def)
  have "st \<noteq> Return" using st by simp
  from run_ok_stop [OF refl refl ok this order_refl, of d] st
  have "run_ok 3 state_init (Exit e n, d, s')" by simp
  from run_ok_init [OF advn_refl this] st show ?thesis by simp
next
  case (Cont u s1)
  then have a3: "advn 3 state_init s1"
    using main_pre_ok [of state_init w argv] by (simp add: ok_step_def)
  have nr: "execv_res w \<noteq> Replaced" using assms Cont by (auto simp: main_def)
  let ?x = "exit_if (execv_res w \<noteq> ENOENT \<and> execv_res w \<noteq> EACCES) ExecFailed s1"
  have okx: "ok_step 1 s1 ?x" by (rule ok_exit_if)
  show ?thesis
  proof (cases ?x)
    case (Stop st s2)
    have ok: "ok_step 1 s1 (Stop st s2 :: unit step)" using okx Stop by simp
    from assms Cont nr Stop obtain e where st: "st = Exit e n" "eo = Some e" "s' = s2"
      by (cases st) (auto simp: main_def)
    have "st \<noteq> Return" using st by simp
    from run_ok_stop [OF refl refl ok this order_refl, of d] st
    have "run_ok 1 s1 (Exit e n, d, s')" by simp
    from run_ok_init [OF a3 this] st show ?thesis by simp
  next
    case c2: (Cont u2 s2)
    then have "advn 1 s1 s2" using okx by (simp add: ok_step_def)
    then have a4: "advn (3 + 1) state_init s2" by (rule advn_trans [OF a3])
    have rk: "run_ok (10 * (Suc MAX_DIAG_DEPTH - 0)) s2 (diag c (root_fs w) (argv ! 2) 0 s2)"
      by (rule diag_run_ok) simp
    obtain r d2 s3 where dg: "diag c (root_fs w) (argv ! 2) 0 s2 = (r, d2, s3)"
      by (cases "diag c (root_fs w) (argv ! 2) 0 s2")
    have "r \<noteq> Return" using rk dg by (auto simp: run_ok_def)
    with assms Cont nr c2 dg obtain e where st: "r = Exit e n" "eo = Some e" "s' = s3"
      by (cases r) (auto simp: main_def)
    have "run_ok 110 s2 (Exit e n, d2, s')"
      using rk dg st by (simp add: MAX_DIAG_DEPTH_def)
    from run_ok_init [OF a4 this] st show ?thesis by simp
  qed
qed

lemma ph_scan_empty:
  assumes "getp (sget v) m (phecnt v) = Some 0"
  shows "ph_scan c v m ph 0 = Some None"
  by (subst ph_scan.simps) (simp add: assms)

subsection \<open>Concrete runs\<close>

lemma diag_Cont:
  assumes "diag_file c files exe (s\<lparr> trace := trace s @ [Enter exe d] \<rparr>) = Cont p s'"
    and "d < MAX_DIAG_DEPTH"
  shows "diag c files exe d s = diag c files p (d + 1) (tick ExcessiveRecursion s')"
  using assms(2) by (subst diag.simps) (simp add: assms(1) exit_if_def Let_def)

lemma main_diag:
  assumes "length argv = 3" and "argv ! 2 = exe"
  shows "main c (env files) argv =
     (case diag c files exe 0 after_main of
        (Exit e n, d, s) \<Rightarrow> (Exits n (Some e), d, s)
      | (Return, d, s) \<Rightarrow> (Exits EXIT_FAILURE None, d, s)
      | (Fault, d, s) \<Rightarrow> (Faults, d, s))"
  using assms
  by (simp add: main_def main_pre_def env_def exit_if_def bind_def Let_def after_main_def)

lemma after_main_fields:
  "exit_err after_main = 4"
  "trace after_main = [Check Usage, Check ChrootFailed, Check ChdirFailed, Check ExecFailed]"
  by (simp_all add: after_main_def tick_def state_init_def)

lemma argv_of_fields: "length (argv_of exe) = 3" "argv_of exe ! 2 = bytes_of exe"
  by (simp_all add: argv_of_def)

lemma diag_missing:
  assumes "files exe = None"
  shows "diag c files exe d s =
     (Exit UnableToOpen (exit_err s + 1), d,
      tick UnableToOpen (s\<lparr> trace := trace s @ [Enter exe d] \<rparr>))"
  by (rule diag_Stop)
     (simp add: diag_file_def diag_open_def exit_if_null_def bind_def Let_def assms tick_def)

lemma missing_exe_run:
  "main elf_abi (env no_files) (argv_of ''/x'') =
     (Exits 5 (Some UnableToOpen), 0,
      \<lparr> exit_err = 5,
        trace = [Check Usage, Check ChrootFailed, Check ChdirFailed, Check ExecFailed,
          Enter (bytes_of ''/x'') 0, Check UnableToOpen] \<rparr>)"
  by (simp add: main_diag [OF argv_of_fields] diag_missing no_files_def after_main_fields
      tick_def)

lemma orphan_script_file:
  "diag_file elf_abi orphan_files (bytes_of ''/s'') s =
     Cont (bytes_of ''/missing'')
       (tick PathNotAbsolute (tick NoInterpreter (tick DupFailed (tick ShebangTooLong
         (after_open s)))))"
proof -
  have f: "orphan_files (bytes_of ''/s'') = Some (regular_exe orphan_script)"
    by (simp add: orphan_files_def)
  have r: "fstat_ok (regular_exe orphan_script)" "is_reg (regular_exe orphan_script)"
    "is_exec (regular_exe orphan_script)" "mm (regular_exe orphan_script) = orphan_script"
    by (simp_all add: regular_exe_def)
  have cls: "classify orphan_script = Shebang"
    by (simp add: classify_def orphan_script_def shebang_def bytes_of_def ch_def)
  have line: "shebang_line orphan_script = bytes_of ''/missing''"
    by (simp add: shebang_line_def orphan_script_def shebang_def bytes_of_def ch_def)
  have "length (shebang_line orphan_script) <
      min (PATH_MAX elf_abi) (length orphan_script - length shebang)"
    by (simp add: line) (simp add: orphan_script_def shebang_def bytes_of_def elf_abi_def)
  then have "shebang_itrp elf_abi orphan_script (after_open s) =
      Cont (Some (takeWhile (\<lambda>b. b \<noteq> 0) (shebang_line orphan_script)))
        (tick DupFailed (tick ShebangTooLong (after_open s)))"
    by (rule shebang_itrp_line)
  moreover have "takeWhile (\<lambda>b. b \<noteq> 0) (bytes_of ''/missing'') = bytes_of ''/missing''"
    by (simp add: bytes_of_def ch_def)
  moreover have "absolute (bytes_of ''/missing'')"
    by (simp add: absolute_def bytes_of_def)
  ultimately show ?thesis
    by (simp add: diag_file_def
        diag_open_ok [where files = orphan_files and exe = "bytes_of ''/s''", OF f r(1-3)]
        bind_def r(4) find_itrp_classify cls line check_itrp_Some)
qed

lemma orphan_script_run:
  "main elf_abi (env orphan_files) (argv_of ''/s'') =
     (Exits 15 (Some UnableToOpen), 1,
      \<lparr> exit_err = 15,
        trace = [Check Usage, Check ChrootFailed, Check ChdirFailed, Check ExecFailed,
          Enter (bytes_of ''/s'') 0, Check UnableToOpen, Check CannotStat,
          Check NotRegularFile, Check NotExecutable, Check MmapFailed,
          Check ShebangTooLong, Check DupFailed, Check NoInterpreter, Check PathNotAbsolute,
          Check ExcessiveRecursion, Enter (bytes_of ''/missing'') 1, Check UnableToOpen] \<rparr>)"
proof -
  have m: "orphan_files (bytes_of ''/missing'') = None"
    by (simp add: orphan_files_def bytes_of_def ch_def)
  have "diag elf_abi orphan_files (bytes_of ''/s'') 0 after_main =
      diag elf_abi orphan_files (bytes_of ''/missing'') (0 + 1)
        (tick ExcessiveRecursion (tick PathNotAbsolute (tick NoInterpreter (tick DupFailed
          (tick ShebangTooLong (after_open
            (after_main\<lparr> trace := trace after_main @ [Enter (bytes_of ''/s'') 0] \<rparr>)))))))"
    by (rule diag_Cont [OF orphan_script_file]) (simp add: MAX_DIAG_DEPTH_def)
  then show ?thesis
    by (simp add: main_diag [OF argv_of_fields] diag_missing [where files = orphan_files, OF m] after_main_fields
        after_open_def tick_def)
qed

subsection \<open>An ELF file without program headers\<close>

lemma diag_no_phdrs:
  assumes "files exe = Some f" and "fstat_ok f" and "is_reg f" and "is_exec f"
    and "classify (mm f) = Elf"
    and "ELF_VERSION c < length (mm f)" and "ELF_BITS c < length (mm f)"
    and "ELF_ENDIAN c < length (mm f)"
    and "mm f ! ELF_VERSION c = 1"
    and "elf_format c (mm f ! ELF_BITS c) (mm f ! ELF_ENDIAN c) = Some (cls, ord)"
    and "v = accessors c cls ord"
    and "getp (lget v) (mm f) (phoff v) = Some ph0"
    and "getp (sget v) (mm f) (phecnt v) = Some 0"
  shows "diag c files exe d s =
     (Exit NoInterpreter (exit_err s + 8), d,
      tick NoInterpreter (tick UnsupportedElfFormat (tick UnsupportedElfVersion
        (after_open (s\<lparr> trace := trace s @ [Enter exe d] \<rparr>)))))"
proof -
  let ?s0 = "s\<lparr> trace := trace s @ [Enter exe d] \<rparr>"
  let ?s2 = "tick UnsupportedElfFormat (tick UnsupportedElfVersion (after_open ?s0))"
  obtain po where po: "phoff v = Some po" "get (lget v) (mm f) po = Some ph0"
    using assms(12) by (auto simp: getp_def split: option.splits)
  have "find_itrp c (mm f) (after_open ?s0) = elf_phdrs c v (mm f) ?s2"
    using assms(5,9,10,11)
    by (simp add: find_itrp_classify elf_itrp_checks [OF assms(6,7,8)])
  also have "\<dots> = Cont None ?s2"
    by (simp add: elf_phdrs_def po ph_scan_empty [OF assms(13)])
  finally have fi: "find_itrp c (mm f) (after_open ?s0) = Cont None ?s2" .
  have "diag_file c files exe ?s0 =
      Stop (Exit NoInterpreter (exit_err ?s2 + 1)) (tick NoInterpreter ?s2)"
    by (simp add: diag_file_def
        diag_open_ok [where files = files and exe = exe, OF assms(1-4)]
        bind_def fi check_itrp_None)
  moreover have "exit_err ?s2 + 1 = exit_err s + 8"
    by (simp add: after_open_def tick_def)
  ultimately show ?thesis using diag_Stop [of c files exe s d] by simp
qed

lemma static_elf_facts:
  "classify static_elf = Elf"
  "ELF_VERSION elf_abi < length static_elf"
  "ELF_BITS elf_abi < length static_elf"
  "ELF_ENDIAN elf_abi < length static_elf"
  "static_elf ! ELF_VERSION elf_abi = 1"
  "elf_format elf_abi (static_elf ! ELF_BITS elf_abi) (static_elf ! ELF_ENDIAN elf_abi) =
     Some (Class32, Little)"
  "getp (lget (accessors elf_abi Class32 Little)) static_elf
     (phoff (accessors elf_abi Class32 Little)) = Some 0"
  "getp (sget (accessors elf_abi Class32 Little)) static_elf
     (phecnt (accessors elf_abi Class32 Little)) = Some 0"
  by (simp_all add: classify_def shebang_def elf_def ch_def static_elf_def elf_abi_def
      elf_format_def read_defs)

lemma static_files_facts:
  "static_files (bytes_of ''/static'') = Some (regular_exe static_elf)"
  "fstat_ok (regular_exe static_elf)" "is_reg (regular_exe static_elf)"
  "is_exec (regular_exe static_elf)" "mm (regular_exe static_elf) = static_elf"
  by (simp_all add: static_files_def regular_exe_def)

subsection \<open>The chain of eleven files\<close>

lemma names_elf_naming:
  assumes "x \<noteq> 0" and "y \<noteq> 0"
  shows "names_interp elf_abi (elf_naming x y) [x, y]"
  unfolding names_interp_def
proof (intro conjI)
  show "classify (elf_naming x y) = Elf"
    by (simp add: classify_def shebang_def elf_def ch_def elf_naming_def)
  show "ELF_VERSION elf_abi < length (elf_naming x y)"
    "ELF_BITS elf_abi < length (elf_naming x y)"
    "ELF_ENDIAN elf_abi < length (elf_naming x y)"
    "elf_naming x y ! ELF_VERSION elf_abi = 1"
    by (simp_all add: elf_naming_def elf_abi_def)
  have f: "elf_format elf_abi (elf_naming x y ! ELF_BITS elf_abi)
      (elf_naming x y ! ELF_ENDIAN elf_abi) = Some (Class32, Little)"
    by (simp add: elf_naming_def elf_abi_def elf_format_def)
  have "sole_interp elf_abi (accessors elf_abi Class32 Little) (elf_naming x y) [x, y]"
    using assms
    by (simp add: sole_interp_def ph_itrp_def strndup_def read_defs elf_naming_def elf_abi_def)
  then show "case elf_format elf_abi (elf_naming x y ! ELF_BITS elf_abi)
      (elf_naming x y ! ELF_ENDIAN elf_abi) of
      None \<Rightarrow> False
    | Some (cls, ord) \<Rightarrow>
        sole_interp elf_abi (accessors elf_abi cls ord) (elf_naming x y) [x, y]"
    by (simp add: f)
qed

lemma digit_chain_paths:
  "digit_chain = [[47, 48], [47, 49], [47, 50], [47, 51], [47, 52], [47, 53],
                  [47, 54], [47, 55], [47, 56], [47, 57], [47, 58], [47, 59]]"
  by (simp add: digit_chain_def digit_path_def ch_def upt_rec)

lemma digit_link:
  assumes "48 \<le> y" and "y \<le> 58" and "y + 1 \<noteq> 0"
  shows "link elf_abi digit_files [47, y] [47, y + 1]"
proof -
  have "names_interp elf_abi (elf_naming 47 (y + 1)) [47, y + 1]"
    by (rule names_elf_naming) (simp_all add: assms(3))
  then show ?thesis
    using assms by (simp add: link_def digit_files_def regular_exe_def ch_def absolute_def)
qed

lemma chain_digits: "chain elf_abi digit_files digit_chain"
  unfolding digit_chain_paths
  using digit_link [of 48] digit_link [of 49] digit_link [of 50] digit_link [of 51]
    digit_link [of 52] digit_link [of 53] digit_link [of 54] digit_link [of 55]
    digit_link [of 56] digit_link [of 57] digit_link [of 58]
  by simp

subsection \<open>Reads outside the file\<close>

lemma memchr_Some:
  assumes "memchr m off x n = Some i"
  shows "off \<le> i \<and> i < length m"
proof -
  let ?w = "take n (drop off m)"
  from assms have mem: "x \<in> set ?w"
    and i: "i = off + length (takeWhile (\<lambda>b. b \<noteq> x) ?w)"
    by (auto simp: memchr_def Let_def split: if_splits)
  have "takeWhile (\<lambda>b. b \<noteq> x) ?w \<noteq> ?w"
    using mem by (auto simp: takeWhile_eq_all_conv)
  moreover have "length (takeWhile (\<lambda>b. b \<noteq> x) ?w) \<le> length ?w"
    by (rule length_takeWhile_le)
  ultimately have "length (takeWhile (\<lambda>b. b \<noteq> x) ?w) < length ?w"
    by (metis le_neq_implies_less takeWhile_eq_take take_all_iff order_refl)
  moreover have "length ?w \<le> length m - off" by simp
  ultimately show ?thesis using i by linarith
qed

lemma shebang_itrp_no_fault: "shebang_itrp c m s \<noteq> Stop Fault s'"
proof (cases "memchr m (length shebang) (ch CHR 0x0A)
    (min (PATH_MAX c) (length m - length shebang))")
  case None
  then show ?thesis
    by (simp add: shebang_itrp_def Let_def exit_if_null_def bind_def)
next
  case (Some nl)
  have len: "length shebang = 2" by (simp add: shebang_def)
  from memchr_Some [OF Some] have "2 \<le> nl" "nl < length m" by (simp_all add: len)
  then have "2 + (nl - 2) < length m" by simp
  then have "strndup m 2 (nl - 2) =
      Some (takeWhile (\<lambda>b. b \<noteq> 0) (take (nl - 2) (drop 2 m)))"
    by (rule strndup_inside)
  then show ?thesis
    using Some by (simp add: shebang_itrp_def Let_def exit_if_null_def bind_def len)
qed

lemma find_itrp_no_fault:
  assumes "classify m \<noteq> Elf"
  shows "find_itrp c m s \<noteq> Stop Fault s'"
  using assms shebang_itrp_no_fault [of c m s s']
  by (cases "classify m") (simp_all add: find_itrp_classify)

lemma diag_file_cases:
  "(\<exists>p s'. diag_file c files exe s = Cont p s') \<or>
   (\<exists>e n s'. diag_file c files exe s = Stop (Exit e n) s' \<and> exit_err s < n) \<or>
   (\<exists>s'. diag_file c files exe s = Stop Fault s')"
proof (cases "diag_file c files exe s")
  case (Cont p s')
  then show ?thesis by simp
next
  case (Stop st s')
  have ok: "ok_step 9 s (Stop st s' :: path step)"
    using ok_diag_file [of s c files exe] Stop by simp
  show ?thesis
  proof (cases st)
    case (Exit e n)
    with ok Stop show ?thesis by (simp add: ok_step_def)
  next
    case Return
    with Stop show ?thesis using diag_file_no_return [of c files exe s s'] by simp
  next
    case Fault
    with Stop show ?thesis by simp
  qed
qed

lemma main_cases:
  "(\<exists>n e. fst (main c w argv) = Exits n (Some e) \<and> 0 < wait_status n) \<or>
   fst (main c w argv) = Execs \<or> fst (main c w argv) = Faults"
proof (cases "main c w argv")
  case (fields r d s')
  show ?thesis
  proof (cases r)
    case (Exits n eo)
    from main_exit [of c w argv n eo d s'] fields Exits
    obtain e where "eo = Some e" "0 < n" "n \<le> 114" by auto
    with fields Exits show ?thesis by (simp add: wait_status_def)
  qed (use fields in simp_all)
qed

lemma ph_scan_unreadable:
  assumes "getp (sget v) m (phecnt v) = Some n" and "i < n" and "get (iget v) m ph = None"
  shows "ph_scan c v m ph i = None"
  by (subst ph_scan.simps) (simp add: assms)

lemma elf_phdrs_unreadable:
  assumes "phoff v = Some po" and "get (lget v) m po = Some ph0"
    and "ph_scan c v m ph0 0 = None"
  shows "elf_phdrs c v m s = Stop Fault s"
  by (simp add: elf_phdrs_def assms)

lemma far_elf_facts:
  "classify far_elf = Elf"
  "ELF_VERSION elf_abi < length far_elf"
  "ELF_BITS elf_abi < length far_elf"
  "ELF_ENDIAN elf_abi < length far_elf"
  "far_elf ! ELF_VERSION elf_abi = 1"
  "elf_format elf_abi (far_elf ! ELF_BITS elf_abi) (far_elf ! ELF_ENDIAN elf_abi) =
     Some (Class32, Little)"
  "getp (lget (accessors elf_abi Class32 Little)) far_elf
     (phoff (accessors elf_abi Class32 Little)) = Some 1073741824"
  "getp (sget (accessors elf_abi Class32 Little)) far_elf
     (phecnt (accessors elf_abi Class32 Little)) = Some 1"
  "get (iget (accessors elf_abi Class32 Little)) far_elf 1073741824 = None"
  by (simp_all add: classify_def far_elf_def elf_abi_def elf_format_def read_defs)

lemma far_elf_find:
  "find_itrp elf_abi far_elf s =
     Stop Fault (tick UnsupportedElfFormat (tick UnsupportedElfVersion s))"
proof -
  let ?v = "accessors elf_abi Class32 Little"
  have scan: "ph_scan elf_abi ?v far_elf 1073741824 0 = None"
    by (rule ph_scan_unreadable [OF far_elf_facts(8) _ far_elf_facts(9)]) simp
  have po: "phoff ?v = Some (ELF32_PHT_OFF elf_abi)" by simp
  have g: "get (lget ?v) far_elf (ELF32_PHT_OFF elf_abi) = Some 1073741824"
    using far_elf_facts(7) by (simp add: getp_def)
  have "elf_phdrs elf_abi ?v far_elf
      (tick UnsupportedElfFormat (tick UnsupportedElfVersion s)) =
      Stop Fault (tick UnsupportedElfFormat (tick UnsupportedElfVersion s))"
    by (rule elf_phdrs_unreadable [OF po g scan])
  then show ?thesis
    by (simp add: find_itrp_classify far_elf_facts(1,5,6)
        elf_itrp_checks [OF far_elf_facts(2,3,4)])
qed

lemma far_elf_diag:
  "diag elf_abi far_files (bytes_of ''/far'') d s =
     (Fault, d, tick UnsupportedElfFormat (tick UnsupportedElfVersion
        (after_open (s\<lparr> trace := trace s @ [Enter (bytes_of ''/far'') d] \<rparr>))))"
proof -
  have f: "far_files (bytes_of ''/far'') = Some (regular_exe far_elf)"
    by (simp add: far_files_def)
  have r: "fstat_ok (regular_exe far_elf)" "is_reg (regular_exe far_elf)"
    "is_exec (regular_exe far_elf)" "mm (regular_exe far_elf) = far_elf"
    by (simp_all add: regular_exe_def)
  show ?thesis
    by (rule diag_Stop)
       (simp add: diag_file_def
          diag_open_ok [where files = far_files and exe = "bytes_of ''/far''", OF f r(1-3)]
          bind_def r(4) far_elf_find)
qed

lemma find_itrp_Fault_elf:
  assumes "find_itrp c m s = Stop Fault s'"
  shows "classify m = Elf"
  using assms find_itrp_no_fault [of m c s s'] by blast

lemma diag_file_Fault_elf:
  assumes "diag_file c files exe s = Stop Fault s'"
  shows "\<exists>f. files exe = Some f \<and> classify (mm f) = Elf"
proof (cases "files exe")
  case None
  with assms show ?thesis
    by (simp add: diag_file_def diag_open_def exit_if_null_def bind_def Let_def)
next
  case (Some f)
  show ?thesis
  proof (cases "diag_open files exe s")
    case (Stop st s1)
    with assms have "st = Fault" "diag_open files exe s = Stop Fault s1"
      by (simp_all add: diag_file_def bind_def)
    then show ?thesis
      using Some
      by (auto simp: diag_open_def exit_if_def exit_if_null_def bind_def Let_def
          split: if_splits)
  next
    case (Cont g s1)
    then have g: "g = f"
      using Some
      by (auto simp: diag_open_def exit_if_def exit_if_null_def bind_def Let_def
          split: if_splits)
    show ?thesis
    proof (cases "find_itrp c (mm f) s1")
      case (Stop st s2)
      with assms Cont g have "find_itrp c (mm f) s1 = Stop Fault s2"
        by (simp add: diag_file_def bind_def)
      then have "classify (mm f) = Elf" by (rule find_itrp_Fault_elf)
      with Some show ?thesis by simp
    next
      case c2: (Cont itrp s2)
      with assms Cont g have "check_itrp itrp s2 = Stop Fault s'"
        by (simp add: diag_file_def bind_def)
      then show ?thesis
        by (auto simp: check_itrp_def exit_if_def exit_if_null_def bind_def Let_def
            split: option.splits if_splits)
    qed
  qed
qed

section \<open>The claims\<close>

text \<open>
  C8. The classifier compares the first bytes of the file with the two bytes \<^verbatim>\<open>#!\<close>
  (0x23 0x21) and then with the four bytes \<^verbatim>\<open>0x7F 'E' 'L' 'F'\<close> (0x7F 0x45 0x4C 0x46), in
  this order: \<^verbatim>\<open>diag\<close> takes the \<^verbatim>\<open>#!\<close> branch exactly for the files that begin with the
  first signature, the ELF branch exactly for the files that begin with the second,
  and exits with "Unsupported file type" for every other file, this exit being the
  only check point executed on the contents. A file shorter than a signature does
  not match it, and the empty file is unsupported.
\<close>

theorem classifier_precedence:
  "find_itrp c m s =
     (case classify m of
        Shebang \<Rightarrow> shebang_itrp c m s
      | Elf \<Rightarrow> elf_itrp c m s
      | Unsupported \<Rightarrow>
          Stop (Exit UnsupportedFileType (exit_err s + 1)) (tick UnsupportedFileType s)) \<and>
   (classify m = Shebang \<longleftrightarrow> (\<exists>r. m = 0x23 # 0x21 # r)) \<and>
   (classify m = Elf \<longleftrightarrow> (\<exists>r. m = 0x7F # 0x45 # 0x4C # 0x46 # r)) \<and>
   (length m < 2 \<longrightarrow> classify m \<noteq> Shebang) \<and>
   (length m < 4 \<longrightarrow> classify m \<noteq> Elf) \<and>
   classify [] = Unsupported"
proof (intro conjI)
  show "find_itrp c m s =
     (case classify m of
        Shebang \<Rightarrow> shebang_itrp c m s
      | Elf \<Rightarrow> elf_itrp c m s
      | Unsupported \<Rightarrow>
          Stop (Exit UnsupportedFileType (exit_err s + 1)) (tick UnsupportedFileType s))"
    by (rule find_itrp_classify)
  show "classify m = Shebang \<longleftrightarrow> (\<exists>r. m = 0x23 # 0x21 # r)"
    by (auto simp: classify_def prefix_def)
  show "classify m = Elf \<longleftrightarrow> (\<exists>r. m = 0x7F # 0x45 # 0x4C # 0x46 # r)"
    by (auto simp: classify_def prefix_def)
  show "length m < 2 \<longrightarrow> classify m \<noteq> Shebang"
    using classify_short [of m] by simp
  show "length m < 4 \<longrightarrow> classify m \<noteq> Elf"
    using classify_short [of m] by simp
  show "classify [] = Unsupported"
    by (simp add: classify_def)
qed

theorem classifier_precedence_witness:
  "classify sh_script = Shebang \<and>
   find_itrp elf_abi sh_script state_init = shebang_itrp elf_abi sh_script state_init \<and>
   classify static_elf = Elf \<and>
   find_itrp elf_abi static_elf state_init = elf_itrp elf_abi static_elf state_init \<and>
   classify [0x7F, 0x45, 0x4C] = Unsupported \<and>
   find_itrp elf_abi [0x7F, 0x45, 0x4C, 0x47, 1, 1, 1] state_init =
     Stop (Exit UnsupportedFileType 1) \<lparr> exit_err = 1, trace = [Check UnsupportedFileType] \<rparr> \<and>
   find_itrp elf_abi [0x23] state_init =
     Stop (Exit UnsupportedFileType 1) \<lparr> exit_err = 1, trace = [Check UnsupportedFileType] \<rparr> \<and>
   find_itrp elf_abi [] state_init =
     Stop (Exit UnsupportedFileType 1) \<lparr> exit_err = 1, trace = [Check UnsupportedFileType] \<rparr> \<and>
   find_itrp elf_abi (bytes_of ''MZ'') state_init =
     Stop (Exit UnsupportedFileType 1) \<lparr> exit_err = 1, trace = [Check UnsupportedFileType] \<rparr>"
proof -
  have k: "classify sh_script = Shebang" "classify static_elf = Elf"
    "classify [0x7F, 0x45, 0x4C] = Unsupported"
    "classify [0x7F, 0x45, 0x4C, 0x47, 1, 1, 1] = Unsupported"
    "classify [0x23] = Unsupported" "classify [] = Unsupported"
    "classify (bytes_of ''MZ'') = Unsupported"
    by (simp_all add: classify_def sh_script_def static_elf_def bytes_of_def ch_def)
  have t: "tick UnsupportedFileType state_init =
      \<lparr> exit_err = 1, trace = [Check UnsupportedFileType] \<rparr>"
    by (simp add: tick_def state_init_def)
  show ?thesis
    using classifier_precedence [of elf_abi sh_script state_init]
      classifier_precedence [of elf_abi static_elf state_init]
      classifier_precedence [of elf_abi "[0x7F, 0x45, 0x4C, 0x47, 1, 1, 1]" state_init]
      classifier_precedence [of elf_abi "[0x23]" state_init]
      classifier_precedence [of elf_abi "[]" state_init]
      classifier_precedence [of elf_abi "bytes_of ''MZ''" state_init]
    by (simp add: k t state_init_fields)
qed

text \<open>
  C3, as the specification states it, fails in two ways. The code keeps a carriage
  return that stands before the newline: for the file \<^verbatim>\<open>#!/bin/sh\r\n\<close> the path that \<^verbatim>\<open>diag\<close>
  extracts is the whole text between the signature and the newline, \<^verbatim>\<open>/bin/sh\r\<close>, which
  is not that text without its trailing carriage return. And \<^verbatim>\<open>strndup\<close> stops at a NUL
  byte: for the file \<^verbatim>\<open>#!/bin\0/sh\r\n\<close> the path is \<^verbatim>\<open>/bin\<close>, which is neither the text
  between the signature and the newline nor that text without its carriage return.
\<close>

theorem shebang_cr_kept:
  "classify crlf_script = Shebang \<and>
   find_itrp elf_abi crlf_script state_init =
     Cont (Some (shebang_line crlf_script))
       \<lparr> exit_err = 2, trace = [Check ShebangTooLong, Check DupFailed] \<rparr> \<and>
   shebang_line crlf_script = bytes_of ''/bin/sh'' @ [ch CHR 0x0D] \<and>
   strip_cr (shebang_line crlf_script) = bytes_of ''/bin/sh'' \<and>
   shebang_line crlf_script \<noteq> strip_cr (shebang_line crlf_script) \<and>
   classify nul_script = Shebang \<and>
   find_itrp elf_abi nul_script state_init =
     Cont (Some (bytes_of ''/bin''))
       \<lparr> exit_err = 2, trace = [Check ShebangTooLong, Check DupFailed] \<rparr> \<and>
   shebang_line nul_script = bytes_of ''/bin'' @ [0] @ bytes_of ''/sh'' @ [ch CHR 0x0D] \<and>
   strip_cr (shebang_line nul_script) = bytes_of ''/bin'' @ [0] @ bytes_of ''/sh'' \<and>
   bytes_of ''/bin'' \<noteq> strip_cr (shebang_line nul_script) \<and>
   bytes_of ''/bin'' \<noteq> shebang_line nul_script"
  by (simp add: classify_def crlf_script_def nul_script_def shebang_line_def strip_cr_def
      find_itrp_def shebang_itrp_def memchr_def strndup_def exit_if_null_def bind_def tick_def
      state_init_def elf_abi_def shebang_def elf_def bytes_of_def ch_def)

text \<open>
  C3, amended. For every file classified as Shebang whose first newline lies within
  the search window (the lesser of \<^verbatim>\<open>PATH_MAX\<close> and the length of the file minus 2), the
  extracted interpreter path is the text strictly between the \<^verbatim>\<open>#!\<close> signature and
  that newline, cut at its first NUL byte if it has one. When that text has no NUL
  byte, the path is the whole text: a carriage return before the newline is then its
  last byte, kept and not excluded.
\<close>

theorem shebang_path_extracted:
  assumes "classify m = Shebang"
    and "length (shebang_line m) < min (PATH_MAX c) (length m - length shebang)"
  shows "find_itrp c m s =
           Cont (Some (takeWhile (\<lambda>b. b \<noteq> 0) (shebang_line m)))
             (tick DupFailed (tick ShebangTooLong s)) \<and>
         (0 \<notin> set (shebang_line m) \<longrightarrow>
            find_itrp c m s =
              Cont (Some (shebang_line m)) (tick DupFailed (tick ShebangTooLong s)))"
proof -
  have a: "find_itrp c m s =
           Cont (Some (takeWhile (\<lambda>b. b \<noteq> 0) (shebang_line m)))
             (tick DupFailed (tick ShebangTooLong s))"
    using assms by (simp add: find_itrp_classify shebang_itrp_line)
  have "0 \<notin> set (shebang_line m) \<Longrightarrow>
      takeWhile (\<lambda>b. b \<noteq> 0) (shebang_line m) = shebang_line m"
    by (auto simp: takeWhile_eq_all_conv)
  with a show ?thesis by simp
qed

theorem shebang_path_extracted_witness:
  "classify crlf_script = Shebang \<and>
   length (shebang_line crlf_script) < min (PATH_MAX elf_abi) (length crlf_script - length shebang) \<and>
   0 \<notin> set (shebang_line crlf_script) \<and>
   find_itrp elf_abi crlf_script state_init =
     Cont (Some (bytes_of ''/bin/sh'' @ [ch CHR 0x0D]))
       \<lparr> exit_err = 2, trace = [Check ShebangTooLong, Check DupFailed] \<rparr> \<and>
   classify nul_script = Shebang \<and>
   length (shebang_line nul_script) < min (PATH_MAX elf_abi) (length nul_script - length shebang) \<and>
   find_itrp elf_abi nul_script state_init =
     Cont (Some (bytes_of ''/bin''))
       \<lparr> exit_err = 2, trace = [Check ShebangTooLong, Check DupFailed] \<rparr>"
proof -
  have h1: "classify crlf_script = Shebang"
    by (simp add: classify_def crlf_script_def bytes_of_def ch_def)
  have l1: "shebang_line crlf_script = bytes_of ''/bin/sh'' @ [ch CHR 0x0D]"
    by (simp add: shebang_line_def crlf_script_def shebang_def bytes_of_def ch_def)
  have h2: "length (shebang_line crlf_script) <
      min (PATH_MAX elf_abi) (length crlf_script - length shebang)"
    by (simp add: l1) (simp add: crlf_script_def shebang_def bytes_of_def elf_abi_def)
  have h3: "0 \<notin> set (shebang_line crlf_script)"
    by (simp add: l1) (simp add: bytes_of_def ch_def)
  have g1: "classify nul_script = Shebang"
    by (simp add: classify_def nul_script_def bytes_of_def ch_def)
  have m1: "shebang_line nul_script =
      bytes_of ''/bin'' @ [0] @ bytes_of ''/sh'' @ [ch CHR 0x0D]"
    by (simp add: shebang_line_def nul_script_def shebang_def bytes_of_def ch_def)
  have g2: "length (shebang_line nul_script) <
      min (PATH_MAX elf_abi) (length nul_script - length shebang)"
    by (simp add: m1) (simp add: nul_script_def shebang_def bytes_of_def elf_abi_def)
  have t1: "takeWhile (\<lambda>b. b \<noteq> 0) (shebang_line nul_script) = bytes_of ''/bin''"
    by (simp add: m1) (simp add: bytes_of_def ch_def)
  have r1: "find_itrp elf_abi crlf_script state_init =
     Cont (Some (bytes_of ''/bin/sh'' @ [ch CHR 0x0D]))
       \<lparr> exit_err = 2, trace = [Check ShebangTooLong, Check DupFailed] \<rparr>"
  proof -
    from shebang_path_extracted [OF h1 h2, of state_init] h3
    have "find_itrp elf_abi crlf_script state_init =
        Cont (Some (shebang_line crlf_script)) (tick DupFailed (tick ShebangTooLong state_init))"
      by blast
    then show ?thesis by (simp only: l1 tick2_init)
  qed
  have r2: "find_itrp elf_abi nul_script state_init =
     Cont (Some (bytes_of ''/bin''))
       \<lparr> exit_err = 2, trace = [Check ShebangTooLong, Check DupFailed] \<rparr>"
  proof -
    from shebang_path_extracted [OF g1 g2, of state_init]
    have "find_itrp elf_abi nul_script state_init =
        Cont (Some (takeWhile (\<lambda>b. b \<noteq> 0) (shebang_line nul_script)))
          (tick DupFailed (tick ShebangTooLong state_init))"
      by blast
    then show ?thesis by (simp only: t1 tick2_init)
  qed
  from h1 h2 h3 r1 g1 g2 r2 show ?thesis by simp
qed

text \<open>
  C4. For a file that consists of \<^verbatim>\<open>#!\<close>, a path, a newline and any further content, the
  extractor returns exactly the path: nothing of the signature, nothing of the newline
  or of what follows it. The path is a path of the platform (a C string: no NUL byte,
  shorter than \<^verbatim>\<open>PATH_MAX\<close>) and the newline is the first one of the file (the path has
  none). The path need not be absolute for this.
\<close>

theorem shebang_round_trip:
  assumes "ch CHR 0x0A \<notin> set p" and "0 \<notin> set p" and "length p < PATH_MAX c"
  shows "find_itrp c (shebang @ p @ ch CHR 0x0A # rest) s =
           Cont (Some p) (tick DupFailed (tick ShebangTooLong s))"
proof -
  let ?m = "shebang @ p @ ch CHR 0x0A # rest"
  have line: "shebang_line ?m = p" using assms(1) by (rule line_of_append)
  have cls: "classify ?m = Shebang" by (simp add: classify_def shebang_def ch_def)
  have "length (shebang_line ?m) < min (PATH_MAX c) (length ?m - length shebang)"
    using assms(3) by (simp add: line)
  then have "shebang_itrp c ?m s =
      Cont (Some (takeWhile (\<lambda>b. b \<noteq> 0) (shebang_line ?m)))
        (tick DupFailed (tick ShebangTooLong s))"
    by (rule shebang_itrp_line)
  moreover have "takeWhile (\<lambda>b. b \<noteq> 0) p = p"
    using assms(2) by (auto simp: takeWhile_eq_all_conv)
  ultimately show ?thesis by (simp add: find_itrp_classify cls line)
qed

theorem shebang_round_trip_witness:
  "ch CHR 0x0A \<notin> set (bytes_of ''/bin/sh'') \<and> 0 \<notin> set (bytes_of ''/bin/sh'') \<and>
   length (bytes_of ''/bin/sh'') < PATH_MAX elf_abi \<and>
   sh_script = shebang @ bytes_of ''/bin/sh'' @ ch CHR 0x0A # (bytes_of ''echo hi'' @ [ch CHR 0x0A]) \<and>
   find_itrp elf_abi sh_script state_init =
     Cont (Some (bytes_of ''/bin/sh''))
       \<lparr> exit_err = 2, trace = [Check ShebangTooLong, Check DupFailed] \<rparr>"
proof -
  have h1: "ch CHR 0x0A \<notin> set (bytes_of ''/bin/sh'')" by (simp add: bytes_of_def ch_def)
  have h2: "0 \<notin> set (bytes_of ''/bin/sh'')" by (simp add: bytes_of_def ch_def)
  have h3: "length (bytes_of ''/bin/sh'') < PATH_MAX elf_abi" by (simp add: bytes_of_def elf_abi_def)
  have eq: "sh_script = shebang @ bytes_of ''/bin/sh'' @ ch CHR 0x0A # (bytes_of ''echo hi'' @ [ch CHR 0x0A])"
    by (simp add: sh_script_def shebang_def bytes_of_def)
  show ?thesis
    using h1 h2 h3 eq
      shebang_round_trip [OF h1 h2 h3, of "bytes_of ''echo hi'' @ [ch CHR 0x0A]" state_init]
    by (simp add: tick_def state_init_def)
qed

text \<open>
  C9. For every file classified as Elf (whose version, class and byte-order bytes lie
  within the file), \<^verbatim>\<open>diag\<close> first exits with "Unsupported ELF version" when the version
  byte is not 1; then it exits with "Unsupported ELF format" unless the class byte is
  the 32-bit or the 64-bit one and the byte-order byte is the little- or the big-endian
  one; and in each of the four recognised combinations it goes on to the program
  headers with the accessors and the field offsets of that combination. In every case
  both check points, or only the first, have been counted.
\<close>

theorem elf_header_checks:
  assumes "classify m = Elf"
    and "ELF_VERSION c < length m" and "ELF_BITS c < length m" and "ELF_ENDIAN c < length m"
  shows "find_itrp c m s =
     (if m ! ELF_VERSION c \<noteq> 1 then
        Stop (Exit UnsupportedElfVersion (exit_err s + 1)) (tick UnsupportedElfVersion s)
      else
        (case elf_format c (m ! ELF_BITS c) (m ! ELF_ENDIAN c) of
           None \<Rightarrow>
             Stop (Exit UnsupportedElfFormat (exit_err s + 2))
               (tick UnsupportedElfFormat (tick UnsupportedElfVersion s))
         | Some (cls, ord) \<Rightarrow>
             elf_phdrs c (accessors c cls ord) m
               (tick UnsupportedElfFormat (tick UnsupportedElfVersion s))))"
  using assms(1) by (simp add: find_itrp_classify elf_itrp_checks [OF assms(2,3,4)])

theorem elf_header_checks_witness:
  "classify bad_version_elf = Elf \<and> ELF_VERSION elf_abi < length bad_version_elf \<and>
   ELF_BITS elf_abi < length bad_version_elf \<and> ELF_ENDIAN elf_abi < length bad_version_elf \<and>
   find_itrp elf_abi bad_version_elf state_init =
     Stop (Exit UnsupportedElfVersion 1)
       \<lparr> exit_err = 1, trace = [Check UnsupportedElfVersion] \<rparr> \<and>
   find_itrp elf_abi bad_order_elf state_init =
     Stop (Exit UnsupportedElfFormat 2)
       \<lparr> exit_err = 2, trace = [Check UnsupportedElfVersion, Check UnsupportedElfFormat] \<rparr> \<and>
   find_itrp elf_abi static_elf state_init =
     elf_phdrs elf_abi (accessors elf_abi Class32 Little) static_elf
       \<lparr> exit_err = 2, trace = [Check UnsupportedElfVersion, Check UnsupportedElfFormat] \<rparr>"
proof -
  have c: "classify bad_version_elf = Elf" "classify bad_order_elf = Elf"
    "classify static_elf = Elf"
    by (simp_all add: classify_def shebang_def elf_def ch_def bad_version_elf_def
        bad_order_elf_def static_elf_def)
  have l1: "ELF_VERSION elf_abi < length bad_version_elf"
    "ELF_BITS elf_abi < length bad_version_elf" "ELF_ENDIAN elf_abi < length bad_version_elf"
    by (simp_all add: bad_version_elf_def elf_abi_def)
  have l2: "ELF_VERSION elf_abi < length bad_order_elf"
    "ELF_BITS elf_abi < length bad_order_elf" "ELF_ENDIAN elf_abi < length bad_order_elf"
    by (simp_all add: bad_order_elf_def elf_abi_def)
  have l3: "ELF_VERSION elf_abi < length static_elf"
    "ELF_BITS elf_abi < length static_elf" "ELF_ENDIAN elf_abi < length static_elf"
    by (simp_all add: static_elf_def elf_abi_def)
  have r1: "find_itrp elf_abi bad_version_elf state_init =
     Stop (Exit UnsupportedElfVersion 1)
       \<lparr> exit_err = 1, trace = [Check UnsupportedElfVersion] \<rparr>"
    using elf_header_checks [OF c(1) l1, of state_init]
    by (simp add: bad_version_elf_def elf_abi_def tick_def state_init_def)
  have r2: "find_itrp elf_abi bad_order_elf state_init =
     Stop (Exit UnsupportedElfFormat 2)
       \<lparr> exit_err = 2, trace = [Check UnsupportedElfVersion, Check UnsupportedElfFormat] \<rparr>"
    using elf_header_checks [OF c(2) l2, of state_init]
    by (simp add: bad_order_elf_def elf_abi_def elf_format_def tick_def state_init_def)
  have r3: "find_itrp elf_abi static_elf state_init =
     elf_phdrs elf_abi (accessors elf_abi Class32 Little) static_elf
       \<lparr> exit_err = 2, trace = [Check UnsupportedElfVersion, Check UnsupportedElfFormat] \<rparr>"
  proof -
    have v: "static_elf ! ELF_VERSION elf_abi = 1"
      by (simp add: static_elf_def elf_abi_def)
    have f: "elf_format elf_abi (static_elf ! ELF_BITS elf_abi)
        (static_elf ! ELF_ENDIAN elf_abi) = Some (Class32, Little)"
      by (simp add: static_elf_def elf_abi_def elf_format_def)
    show ?thesis
      using elf_header_checks [OF c(3) l3, of state_init]
      by (simp add: v f tick2_init)
  qed
  from c(1) l1 r1 r2 r3 show ?thesis by simp
qed



text \<open>
  C7. Whenever the path extracted from a file (from its \<^verbatim>\<open>#!\<close> line or from its
  \<^verbatim>\<open>PT_INTERP\<close> entry: \<open>find_itrp\<close> is both) does not begin with \<^verbatim>\<open>/\<close>, which includes the
  empty path, \<^verbatim>\<open>diag\<close> exits with "Path must be absolute": that check point is the last one
  executed, the depth counter is unchanged, and the only entry into \<^verbatim>\<open>diag\<close> is the
  present one, so nothing was recursed into and the path was used as it is. The
  extraction is taken in any state, since its outcome does not depend on the counters.
  The witness is the script \<^verbatim>\<open>#!bin/sh\<close>.
\<close>

theorem relative_interpreter_rejected:
  assumes "files exe = Some f" and "fstat_ok f" and "is_reg f" and "is_exec f"
    and "find_itrp c (mm f) s0 = Cont (Some p) s1"
    and "\<not> absolute p"
  shows "\<exists>s'. diag c files exe d s = (Exit PathNotAbsolute (exit_err s'), d, s') \<and>
           last (trace s') = Check PathNotAbsolute \<and>
           enter_depths (trace s') = enter_depths (trace s) @ [d]"
proof -
  let ?s = "s\<lparr> trace := trace s @ [Enter exe d] \<rparr>"
  obtain t1 where t1: "find_itrp c (mm f) (after_open ?s) = Cont (Some p) t1"
    using find_itrp_any_state [OF assms(5)] by blast
  let ?s' = "tick PathNotAbsolute (tick NoInterpreter t1)"
  have stop: "diag_file c files exe ?s = Stop (Exit PathNotAbsolute (exit_err t1 + 2)) ?s'"
    using assms(6)
    by (simp add: diag_file_def diag_open_ok [where files = files and exe = exe, OF assms(1-4)] t1 bind_def check_itrp_Some)
  have run: "diag c files exe d s = (Exit PathNotAbsolute (exit_err ?s'), d, ?s')"
    using diag_Stop [OF stop] by (simp add: tick_def)
  have "advn 2 (after_open ?s) t1"
    using ok_find_itrp [of "after_open ?s" c "mm f"] by (simp add: t1 ok_step_def)
  then have "enter_depths (trace t1) = enter_depths (trace (after_open ?s))"
    by (rule advn_enters)
  also have "\<dots> = enter_depths (trace ?s)"
    by (rule advn_enters [OF advn_after_open])
  finally have "enter_depths (trace ?s') = enter_depths (trace s) @ [d]"
    by (simp add: tick_def enter_depths_append)
  moreover have "last (trace ?s') = Check PathNotAbsolute" by (simp add: tick_def)
  ultimately show ?thesis using run by blast
qed

theorem relative_interpreter_rejected_witness:
  "find_itrp elf_abi rel_script state_init =
     Cont (Some (bytes_of ''bin/sh''))
       \<lparr> exit_err = 2, trace = [Check ShebangTooLong, Check DupFailed] \<rparr> \<and>
   \<not> absolute (bytes_of ''bin/sh'') \<and>
   (\<exists>s'. diag elf_abi (\<lambda>p. if p = bytes_of ''/x'' then Some (regular_exe rel_script) else None)
           (bytes_of ''/x'') 0 state_init = (Exit PathNotAbsolute (exit_err s'), 0, s') \<and>
         last (trace s') = Check PathNotAbsolute \<and> enter_depths (trace s') = [0])"
proof -
  let ?files = "\<lambda>p. if p = bytes_of ''/x'' then Some (regular_exe rel_script) else None"
  have h1: "?files (bytes_of ''/x'') = Some (regular_exe rel_script)" by simp
  have h2: "fstat_ok (regular_exe rel_script)" "is_reg (regular_exe rel_script)"
    "is_exec (regular_exe rel_script)"
    by (simp_all add: regular_exe_def)
  have h3: "find_itrp elf_abi (mm (regular_exe rel_script)) state_init =
     Cont (Some (bytes_of ''bin/sh''))
       \<lparr> exit_err = 2, trace = [Check ShebangTooLong, Check DupFailed] \<rparr>"
    by (simp add: regular_exe_def rel_script_def find_itrp_def shebang_itrp_def memchr_def
        strndup_def exit_if_null_def bind_def tick_def state_init_def elf_abi_def shebang_def
        elf_def bytes_of_def ch_def)
  have h4: "\<not> absolute (bytes_of ''bin/sh'')"
    by (simp add: absolute_def bytes_of_def ch_def)
  show ?thesis
    using h3 h4
      relative_interpreter_rejected [where files = ?files and exe = "bytes_of ''/x''"
        and d = 0 and s = state_init, OF h1 h2 h3 h4]
    by (simp add: regular_exe_def state_init_def)
qed

text \<open>
  C6. Whenever the program exits through \<^verbatim>\<open>exit_if\<close>, its status is the number of check
  points executed from the start of \<^verbatim>\<open>main\<close> up to and including the failing one, which is
  the last event of the trace: every check point has counted once, whether its
  condition held or not. The status lies between 1 and 114 (4 check points in \<^verbatim>\<open>main\<close>,
  at most 10 in each of at most 11 calls of \<^verbatim>\<open>diag\<close>), so the status the parent reads is
  this number and is not zero. It is not a code of the error kind: no single number is
  the status of all runs that fail with "Unable to open" (in the witness, 5 when the
  target is missing and 15 when the interpreter of a script is missing).
\<close>

theorem exit_status_counts_checks:
  "(main c w argv = (Exits n eo, d, s') \<longrightarrow>
      (\<exists>e. eo = Some e \<and> last (trace s') = Check e) \<and>
      n = length (checks (trace s')) \<and> 0 < n \<and> n \<le> 114 \<and> wait_status n = n) \<and>
   \<not> (\<exists>code. \<forall>w' argv' n' d' s''.
         main elf_abi w' argv' = (Exits n' (Some UnableToOpen), d', s'') \<longrightarrow> n' = code)"
proof (intro conjI impI notI)
  assume "main c w argv = (Exits n eo, d, s')"
  from main_exit [OF this] obtain e where e: "eo = Some e" "last (trace s') = Check e"
    "n = exit_err s'" "length (checks (trace s')) = n" "0 < n" "n \<le> 114"
    by blast
  then show "\<exists>e. eo = Some e \<and> last (trace s') = Check e" by blast
  from e show "n = length (checks (trace s'))" by simp
  from e show "0 < n" by simp
  from e show "n \<le> 114" by simp
  from e show "wait_status n = n" by (simp add: wait_status_def)
next
  assume "\<exists>code. \<forall>w' argv' n' d' s''.
         main elf_abi w' argv' = (Exits n' (Some UnableToOpen), d', s'') \<longrightarrow> n' = code"
  then obtain code :: nat where code: "\<And>w' argv' n' d' s''.
     main elf_abi w' argv' = (Exits n' (Some UnableToOpen), d', s'') \<Longrightarrow> n' = code"
    by blast
  from code [OF missing_exe_run] code [OF orphan_script_run] show False by simp
qed

theorem exit_status_counts_checks_witness:
  "main elf_abi (env no_files) (argv_of ''/x'') =
     (Exits 5 (Some UnableToOpen), 0,
      \<lparr> exit_err = 5,
        trace = [Check Usage, Check ChrootFailed, Check ChdirFailed, Check ExecFailed,
          Enter (bytes_of ''/x'') 0, Check UnableToOpen] \<rparr>) \<and>
   5 = length (checks [Check Usage, Check ChrootFailed, Check ChdirFailed, Check ExecFailed,
          Enter (bytes_of ''/x'') 0, Check UnableToOpen]) \<and>
   wait_status 5 = 5 \<and>
   fst (main elf_abi (env orphan_files) (argv_of ''/s'')) = Exits 15 (Some UnableToOpen)"
  using missing_exe_run orphan_script_run
    exit_status_counts_checks [of elf_abi "env no_files" "argv_of ''/x''" 5
      "Some UnableToOpen" 0
      "\<lparr> exit_err = 5,
        trace = [Check Usage, Check ChrootFailed, Check ChdirFailed, Check ExecFailed,
          Enter (bytes_of ''/x'') 0, Check UnableToOpen] \<rparr>"]
  by simp

text \<open>
  C1 does not hold of the code. For every regular executable file that is an ELF with
  version 1, a recognised class and byte order, and a program-header entry count of
  zero, whatever its program-header-table offset, zero included, \<^verbatim>\<open>diag\<close> exits with "Unable
  to determine interpreter" at the eighth check point of the call: the \<^verbatim>\<open>return\<close> of line
  106 is not taken, because \<^verbatim>\<open>phoff\<close> is the address of the field, not its value. The
  witness is a static binary with \<^verbatim>\<open>e_phoff = 0\<close> and \<^verbatim>\<open>e_phnum = 0\<close>: the program exits with
  status 12.
\<close>

theorem static_binary_is_an_error:
  assumes "files exe = Some f" and "fstat_ok f" and "is_reg f" and "is_exec f"
    and "classify (mm f) = Elf"
    and "ELF_VERSION c < length (mm f)" and "ELF_BITS c < length (mm f)"
    and "ELF_ENDIAN c < length (mm f)"
    and "mm f ! ELF_VERSION c = 1"
    and "elf_format c (mm f ! ELF_BITS c) (mm f ! ELF_ENDIAN c) = Some (cls, ord)"
    and "v = accessors c cls ord"
    and "getp (lget v) (mm f) (phoff v) = Some ph0"
    and "getp (sget v) (mm f) (phecnt v) = Some 0"
  shows "diag c files exe d s =
     (Exit NoInterpreter (exit_err s + 8), d,
      tick NoInterpreter (tick UnsupportedElfFormat (tick UnsupportedElfVersion
        (after_open (s\<lparr> trace := trace s @ [Enter exe d] \<rparr>)))))"
  using assms by (rule diag_no_phdrs)

theorem static_binary_is_an_error_witness:
  "getp (lget (accessors elf_abi Class32 Little)) static_elf
     (phoff (accessors elf_abi Class32 Little)) = Some 0 \<and>
   getp (sget (accessors elf_abi Class32 Little)) static_elf
     (phecnt (accessors elf_abi Class32 Little)) = Some 0 \<and>
   main elf_abi (env static_files) (argv_of ''/static'') =
     (Exits 12 (Some NoInterpreter), 0,
      \<lparr> exit_err = 12,
        trace = [Check Usage, Check ChrootFailed, Check ChdirFailed, Check ExecFailed,
          Enter (bytes_of ''/static'') 0, Check UnableToOpen, Check CannotStat,
          Check NotRegularFile, Check NotExecutable, Check MmapFailed,
          Check UnsupportedElfVersion, Check UnsupportedElfFormat, Check NoInterpreter] \<rparr>)"
proof -
  have "diag elf_abi static_files (bytes_of ''/static'') 0 after_main =
     (Exit NoInterpreter (exit_err after_main + 8), 0,
      tick NoInterpreter (tick UnsupportedElfFormat (tick UnsupportedElfVersion
        (after_open (after_main\<lparr> trace := trace after_main @
           [Enter (bytes_of ''/static'') 0] \<rparr>)))))"
    using static_binary_is_an_error [where files = static_files
        and exe = "bytes_of ''/static''" and f = "regular_exe static_elf" and c = elf_abi
        and cls = Class32 and ord = Little and v = "accessors elf_abi Class32 Little"
        and ?ph0.0 = 0 and d = 0 and s = after_main]
      static_files_facts static_elf_facts
    by simp
  then show ?thesis
    using static_elf_facts(7,8)
    by (simp add: main_diag [OF argv_of_fields] after_main_fields after_open_def tick_def)
qed

text \<open>
  C2. Let the first 11 paths of \<open>ps\<close> be files, each an ELF whose sole \<^verbatim>\<open>PT_INTERP\<close> entry
  names the next path of \<open>ps\<close> absolutely (the eleventh names the twelfth path, which need
  not exist). The walk from the first file at depth 0 ends with "Excessive interpreter
  recursion": \<^verbatim>\<open>diag\<close> was entered 11 times, at the depths 0 to 10, that is the first call
  and exactly 10 recursive calls, all 11 files were read, and the counter is 11 when
  the error is raised. For any files and any target, the depths at which \<^verbatim>\<open>diag\<close> is
  entered are 0, 1, 2 and so on without a gap, and never more than 10.
\<close>

theorem depth_bound:
  assumes "length ps = 12" and "chain c files ps"
  shows "diag c files (hd ps) 0 s =
           (Exit ExcessiveRecursion (exit_err s + 110), 11, run_links (take 11 ps) 0 s) \<and>
         enter_depths (trace (run_links (take 11 ps) 0 s)) = enter_depths (trace s) @ [0..<11] \<and>
         (\<forall>fs exe. \<exists>k. enter_depths (trace (snd (snd (diag c fs exe 0 s)))) =
                          enter_depths (trace s) @ [0..<k] \<and>
                        0 < k \<and> k \<le> Suc MAX_DIAG_DEPTH)"
proof (intro conjI allI)
  obtain p qs where ps: "ps = p # qs" using assms(1) by (cases ps) auto
  then have qs: "length qs = 11" "qs \<noteq> []" using assms(1) by auto
  have "diag c files p 0 s =
      (Exit ExcessiveRecursion (exit_err s + 10 * length qs), Suc MAX_DIAG_DEPTH,
       run_links (butlast (p # qs)) 0 s)"
    by (rule diag_chain) (use assms(2) ps qs in \<open>simp_all add: MAX_DIAG_DEPTH_def\<close>)
  moreover have "butlast ps = take 11 ps" using assms(1) by (simp add: butlast_conv_take)
  ultimately show "diag c files (hd ps) 0 s =
      (Exit ExcessiveRecursion (exit_err s + 110), 11, run_links (take 11 ps) 0 s)"
    using ps qs by (simp add: MAX_DIAG_DEPTH_def)
next
  have "length (take 11 ps) = 11" using assms(1) by simp
  then show "enter_depths (trace (run_links (take 11 ps) 0 s)) =
      enter_depths (trace s) @ [0..<11]"
    using run_links_enters [of "take 11 ps" 0 s] by simp
next
  fix fs exe
  show "\<exists>k. enter_depths (trace (snd (snd (diag c fs exe 0 s)))) =
            enter_depths (trace s) @ [0..<k] \<and> 0 < k \<and> k \<le> Suc MAX_DIAG_DEPTH"
    by (rule diag_enters) simp
qed

theorem depth_bound_witness:
  "length digit_chain = 12 \<and> chain elf_abi digit_files digit_chain \<and>
   fst (diag elf_abi digit_files (digit_path 0) 0 state_init) = Exit ExcessiveRecursion 110 \<and>
   fst (snd (diag elf_abi digit_files (digit_path 0) 0 state_init)) = 11 \<and>
   enter_depths (trace (snd (snd (diag elf_abi digit_files (digit_path 0) 0 state_init)))) =
     [0, 1, 2, 3, 4, 5, 6, 7, 8, 9, 10]"
proof -
  have l: "length digit_chain = 12" by (simp add: digit_chain_def)
  have h: "hd digit_chain = digit_path 0"
    by (simp add: digit_chain_paths digit_path_def ch_def)
  have u: "[0..<11] = [0, 1, 2, 3, 4, 5, 6, 7, 8, 9, 10 :: nat]"
    by (simp add: upt_rec)
  from depth_bound [OF l chain_digits, of state_init] l chain_digits show ?thesis
    by (simp add: h u state_init_fields)
qed

text \<open>
  C10, as it is stated, fails: a call of \<^verbatim>\<open>diag\<close> can end without a diagnostic and
  without recursing. The file \<open>far_elf\<close> is a regular executable ELF header of 52 bytes
  whose \<^verbatim>\<open>e_phoff\<close> is 0x40000000 and whose \<^verbatim>\<open>e_phnum\<close> is 1; the loop of line 109 reads the
  type of the entry at that offset, outside the file. The run has passed eleven check
  points, has entered \<^verbatim>\<open>diag\<close> once and has printed nothing.
\<close>

theorem far_offset_faults:
  "classify far_elf = Elf \<and>
   getp (lget (accessors elf_abi Class32 Little)) far_elf
     (phoff (accessors elf_abi Class32 Little)) = Some 1073741824 \<and>
   length far_elf = 52 \<and>
   diag elf_abi far_files (bytes_of ''/far'') 0 after_main =
     (Fault, 0,
      \<lparr> exit_err = 11,
        trace = [Check Usage, Check ChrootFailed, Check ChdirFailed, Check ExecFailed,
          Enter (bytes_of ''/far'') 0, Check UnableToOpen, Check CannotStat,
          Check NotRegularFile, Check NotExecutable, Check MmapFailed,
          Check UnsupportedElfVersion, Check UnsupportedElfFormat] \<rparr>) \<and>
   fst (main elf_abi (env far_files) (argv_of ''/far'')) = Faults"
proof -
  have d: "diag elf_abi far_files (bytes_of ''/far'') 0 after_main =
     (Fault, 0,
      \<lparr> exit_err = 11,
        trace = [Check Usage, Check ChrootFailed, Check ChdirFailed, Check ExecFailed,
          Enter (bytes_of ''/far'') 0, Check UnableToOpen, Check CannotStat,
          Check NotRegularFile, Check NotExecutable, Check MmapFailed,
          Check UnsupportedElfVersion, Check UnsupportedElfFormat] \<rparr>)"
    by (simp add: far_elf_diag after_main_def after_open_def tick_def state_init_def)
  have m: "fst (main elf_abi (env far_files) (argv_of ''/far'')) = Faults"
    by (simp add: main_diag [OF argv_of_fields] far_elf_diag)
  have l: "length far_elf = 52" by (simp add: far_elf_def)
  from far_elf_facts(1,7) l d m show ?thesis by simp
qed

text \<open>
  C10, amended. \<^verbatim>\<open>diag\<close> never returns: the \<^verbatim>\<open>return\<close> of line 106 needs \<^verbatim>\<open>phoff\<close> to be
  \<^verbatim>\<open>NULL\<close>, and \<^verbatim>\<open>phoff\<close> is not \<^verbatim>\<open>NULL\<close> whenever \<^verbatim>\<open>lget\<close> is set. One call of \<^verbatim>\<open>diag\<close> ends in
  one of three ways: it goes on to the test of the depth and the recursive call, it
  exits with a diagnostic and a counter that has grown, or it reads outside the bytes
  of the file, which only a file with the ELF magic can cause. So \<^verbatim>\<open>main\<close> never reaches
  its \<^verbatim>\<open>return EXIT_FAILURE\<close>: the program is replaced by \<^verbatim>\<open>execv\<close>, or it exits with a
  diagnostic and a status that is not zero, or it reads outside the file.
\<close>

theorem no_silent_success:
  "fst (diag c files exe d s) \<noteq> Return \<and>
   (\<forall>s'. diag_file c files exe s \<noteq> Stop Return s') \<and>
   ((\<exists>p s'. diag_file c files exe s = Cont p s') \<or>
    (\<exists>e n s'. diag_file c files exe s = Stop (Exit e n) s' \<and> exit_err s < n) \<or>
    (\<exists>s'. diag_file c files exe s = Stop Fault s')) \<and>
   (classify m \<noteq> Elf \<longrightarrow> (\<forall>s'. find_itrp c m s \<noteq> Stop Fault s')) \<and>
   (\<forall>s'. diag_file c files exe s = Stop Fault s' \<longrightarrow>
      (\<exists>f. files exe = Some f \<and> classify (mm f) = Elf)) \<and>
   (\<forall>v. elf_select c m = Some v \<and> lget v \<noteq> None \<longrightarrow> phoff v \<noteq> None) \<and>
   (\<forall>n d' s'. main c w argv \<noteq> (Exits n None, d', s')) \<and>
   (\<forall>n eo d' s'. main c w argv = (Exits n eo, d', s') \<longrightarrow> eo \<noteq> None \<and> 0 < wait_status n) \<and>
   ((\<exists>n e. fst (main c w argv) = Exits n (Some e) \<and> 0 < wait_status n) \<or>
    fst (main c w argv) = Execs \<or> fst (main c w argv) = Faults)"
proof (intro conjI allI impI)
  show "fst (diag c files exe d s) \<noteq> Return" by (rule diag_no_return)
  show "\<And>s'. diag_file c files exe s \<noteq> Stop Return s'" by (rule diag_file_no_return)
  show "(\<exists>p s'. diag_file c files exe s = Cont p s') \<or>
    (\<exists>e n s'. diag_file c files exe s = Stop (Exit e n) s' \<and> exit_err s < n) \<or>
    (\<exists>s'. diag_file c files exe s = Stop Fault s')"
    by (rule diag_file_cases)
  show "\<And>s'. classify m \<noteq> Elf \<Longrightarrow> find_itrp c m s \<noteq> Stop Fault s'"
    by (rule find_itrp_no_fault)
  show "\<And>s'. diag_file c files exe s = Stop Fault s' \<Longrightarrow>
      \<exists>f. files exe = Some f \<and> classify (mm f) = Elf"
    by (rule diag_file_Fault_elf)
  show "\<And>v. elf_select c m = Some v \<and> lget v \<noteq> None \<Longrightarrow> phoff v \<noteq> None"
    using elf_select_phoff by blast
  show "\<And>n d' s'. main c w argv \<noteq> (Exits n None, d', s')"
    using main_exit by blast
  show "(\<exists>n e. fst (main c w argv) = Exits n (Some e) \<and> 0 < wait_status n) \<or>
    fst (main c w argv) = Execs \<or> fst (main c w argv) = Faults"
    by (rule main_cases)
next
  fix n eo d' s'
  assume "main c w argv = (Exits n eo, d', s')"
  from main_exit [OF this] obtain e where e: "eo = Some e" "0 < n" "n \<le> 114" by blast
  then show "eo \<noteq> None" by simp
  from e show "0 < wait_status n" by (simp add: wait_status_def)
qed

theorem no_silent_success_witness:
  "elf_select elf_abi static_elf = Some (accessors elf_abi Class32 Little) \<and>
   lget (accessors elf_abi Class32 Little) \<noteq> None \<and>
   phoff (accessors elf_abi Class32 Little) = Some 28 \<and>
   fst (diag elf_abi static_files (bytes_of ''/static'') 0 after_main) = Exit NoInterpreter 12 \<and>
   fst (diag elf_abi static_files (bytes_of ''/static'') 0 after_main) \<noteq> Return \<and>
   fst (main elf_abi (env static_files) (argv_of ''/static'')) = Exits 12 (Some NoInterpreter) \<and>
   0 < wait_status 12"
proof -
  have sel: "elf_select elf_abi static_elf = Some (accessors elf_abi Class32 Little)"
    using elf_select_format [of elf_abi static_elf] static_elf_facts by simp
  have dg: "diag elf_abi static_files (bytes_of ''/static'') 0 after_main =
     (Exit NoInterpreter (exit_err after_main + 8), 0,
      tick NoInterpreter (tick UnsupportedElfFormat (tick UnsupportedElfVersion
        (after_open (after_main\<lparr> trace := trace after_main @
           [Enter (bytes_of ''/static'') 0] \<rparr>)))))"
    using diag_no_phdrs [where files = static_files
        and exe = "bytes_of ''/static''" and f = "regular_exe static_elf" and c = elf_abi
        and cls = Class32 and ord = Little and v = "accessors elf_abi Class32 Little"
        and ?ph0.0 = 0 and d = 0 and s = after_main]
      static_files_facts static_elf_facts
    by simp
  have mn: "fst (main elf_abi (env static_files) (argv_of ''/static'')) =
      Exits 12 (Some NoInterpreter)"
    by (simp add: main_diag [OF argv_of_fields] dg after_main_fields)
  obtain d' s' where full: "main elf_abi (env static_files) (argv_of ''/static'') =
      (Exits 12 (Some NoInterpreter), d', s')"
    using mn by (cases "main elf_abi (env static_files) (argv_of ''/static'')") auto
  from no_silent_success [of elf_abi static_files "bytes_of ''/static''" 0 after_main
      static_elf "env static_files" "argv_of ''/static''"] full
  have "fst (diag elf_abi static_files (bytes_of ''/static'') 0 after_main) \<noteq> Return"
    and "0 < wait_status 12"
    by blast+
  with sel dg mn show ?thesis
    by (simp add: after_main_fields elf_abi_def)
qed

end
